theory Spec2Isabelle
  imports Complex_Main
begin

section \<open>Invoice field extraction (\<^verbatim>\<open>src/pdf_processor.py\<close>)\<close>

text \<open>
  A text is a \<^typ>\<open>string\<close>: each \<^typ>\<open>char\<close> stands for one code point of the
  Python \<^verbatim>\<open>str\<close>, in the range 0..255 (Latin-1). Python floats are exact rationals
  (\<^typ>\<open>rat\<close>): rounding is not modelled.
\<close>

subsection \<open>Python string operations\<close>

definition ord :: "char \<Rightarrow> nat" where
  "ord c = of_char c"

text \<open>\<^verbatim>\<open>str.isspace\<close> on one code point below 256; also the class \<^verbatim>\<open>\s\<close> of \<^verbatim>\<open>re\<close>.\<close>

definition py_isspace :: "char \<Rightarrow> bool" where
  "py_isspace c = ((9 \<le> ord c \<and> ord c \<le> 13) \<or> (28 \<le> ord c \<and> ord c \<le> 32)
     \<or> ord c = 133 \<or> ord c = 160)"

text \<open>The class \<^verbatim>\<open>\d\<close> of \<^verbatim>\<open>re\<close> below 256: the ten ASCII digits.\<close>

definition py_isdigit :: "char \<Rightarrow> bool" where
  "py_isdigit c = (48 \<le> ord c \<and> ord c \<le> 57)"

definition ascii_lower :: "char \<Rightarrow> char" where
  "ascii_lower c = (if 65 \<le> ord c \<and> ord c \<le> 90 then char_of (ord c + 32) else c)"

definition ascii_upper :: "char \<Rightarrow> char" where
  "ascii_upper c = (if 97 \<le> ord c \<and> ord c \<le> 122 then char_of (ord c - 32) else c)"

text \<open>\<^verbatim>\<open>str.lower\<close> on one code point below 256: A-Z and the Latin-1 capitals
  (0xC0..0xDE without the multiplication sign 0xD7) move up by 32.\<close>

definition lower_char :: "char \<Rightarrow> char" where
  "lower_char c =
     (if (65 \<le> ord c \<and> ord c \<le> 90) \<or> (192 \<le> ord c \<and> ord c \<le> 222 \<and> ord c \<noteq> 215)
      then char_of (ord c + 32) else c)"

definition lower :: "string \<Rightarrow> string" where
  "lower s = map lower_char s"

text \<open>\<^verbatim>\<open>str.strip()\<close>: whitespace removed at both ends.\<close>

definition strip :: "string \<Rightarrow> string" where
  "strip s = rev (dropWhile py_isspace (rev (dropWhile py_isspace s)))"

text \<open>\<^verbatim>\<open>text.split("\n")\<close>: the pieces between the separators, empty ones kept;
  the empty text gives one empty piece.\<close>

fun split_acc :: "char \<Rightarrow> string \<Rightarrow> string \<Rightarrow> string list" where
  "split_acc sep cur [] = [rev cur]"
| "split_acc sep cur (c # cs) =
     (if c = sep then rev cur # split_acc sep [] cs else split_acc sep (c # cur) cs)"

definition split :: "char \<Rightarrow> string \<Rightarrow> string list" where
  "split sep s = split_acc sep [] s"

text \<open>\<^verbatim>\<open>sep.join(parts)\<close>.\<close>

fun join :: "string \<Rightarrow> string list \<Rightarrow> string" where
  "join sep [] = []"
| "join sep [p] = p"
| "join sep (p # q # ps) = p @ sep @ join sep (q # ps)"

text \<open>\<^verbatim>\<open>keyword in s\<close>: \<open>keyword\<close> occurs in \<open>s\<close> as a contiguous piece.\<close>

fun starts_with :: "string \<Rightarrow> string \<Rightarrow> bool" where
  "starts_with [] s = True"
| "starts_with (k # ks) [] = False"
| "starts_with (k # ks) (c # cs) = (k = c \<and> starts_with ks cs)"

fun contains :: "string \<Rightarrow> string \<Rightarrow> bool" where
  "contains k [] = starts_with k []"
| "contains k (c # cs) = (starts_with k (c # cs) \<or> contains k cs)"

text \<open>\<^verbatim>\<open>s.replace(c, "")\<close> for a one-character \<open>c\<close>.\<close>

definition remove_char :: "char \<Rightarrow> string \<Rightarrow> string" where
  "remove_char c s = filter (\<lambda>x. x \<noteq> c) s"

subsection \<open>The patterns of \<^verbatim>\<open>re\<close> that the catalog uses\<close>

text \<open>
  One character of a pattern: a literal, \<^verbatim>\<open>\s\<close>, \<^verbatim>\<open>\d\<close>, or a bracketed set of
  literals, ranges and \<^verbatim>\<open>\s\<close>.
\<close>

datatype item = IChar char | IRange char char | ISpace

datatype atom = Lit char | Spc | Dig | Set "item list"

fun item_accepts :: "item \<Rightarrow> char \<Rightarrow> bool" where
  "item_accepts (IChar x) c = (c = x)"
| "item_accepts (IRange lo hi) c = (ord lo \<le> ord c \<and> ord c \<le> ord hi)"
| "item_accepts ISpace c = py_isspace c"

fun accepts :: "atom \<Rightarrow> char \<Rightarrow> bool" where
  "accepts (Lit x) c = (c = x)"
| "accepts Spc c = py_isspace c"
| "accepts Dig c = py_isdigit c"
| "accepts (Set its) c = list_ex (\<lambda>i. item_accepts i c) its"

text \<open>Under \<^verbatim>\<open>re.IGNORECASE\<close> a character matches when it, its lower case or its upper
  case is accepted. Below 256 only the ASCII letters have a case partner that a pattern
  of the catalog can name.\<close>

definition amatch :: "atom \<Rightarrow> char \<Rightarrow> bool" where
  "amatch a c = (accepts a c \<or> accepts a (ascii_lower c) \<or> accepts a (ascii_upper c))"

text \<open>
  The catalog repeats single characters only (\<^verbatim>\<open>\s*\<close>, \<^verbatim>\<open>#?\<close>, \<^verbatim>\<open>\d{1,2}\<close>,
  \<^verbatim>\<open>[A-Z0-9\-]{4,}\<close>): \<open>Rep a m n\<close> is \<open>a\<close> repeated at least \<open>m\<close> and at most \<open>n\<close>
  times (\<open>None\<close>: no upper bound), greedy.
\<close>

datatype regex =
    Eps
  | Atom atom
  | Rep atom nat "nat option"
  | Seq regex regex
  | Alt regex regex

text \<open>The length of the longest run of \<open>a\<close> at the front of the text, at most \<open>n\<close>.\<close>

fun run :: "atom \<Rightarrow> nat option \<Rightarrow> string \<Rightarrow> nat" where
  "run a n [] = 0"
| "run a n (c # cs) =
     (if n = Some 0 \<or> \<not> amatch a c then 0
      else Suc (run a (map_option (\<lambda>k. k - 1) n) cs))"

text \<open>
  \<open>ms r s\<close>: the texts left after each way of matching \<open>r\<close> at the front of \<open>s\<close>, in the
  order in which the backtracking matcher of \<^verbatim>\<open>re\<close> tries them: a greedy repetition
  gives back one character at a time, an alternation tries its left branch first.
\<close>

fun ms :: "regex \<Rightarrow> string \<Rightarrow> string list" where
  "ms Eps s = [s]"
| "ms (Atom a) s = (case s of [] \<Rightarrow> [] | c # cs \<Rightarrow> if amatch a c then [cs] else [])"
| "ms (Rep a m n) s = map (\<lambda>j. drop j s) (rev [m ..< Suc (run a n s)])"
| "ms (Seq r1 r2) s = concat (map (ms r2) (ms r1 s))"
| "ms (Alt r1 r2) s = ms r1 s @ ms r2 s"

text \<open>Every rule of the catalog is a prefix followed by its one capture group, which
  ends the pattern.\<close>

record pattern =
  prefix :: regex
  group1 :: regex

text \<open>The match that starts at the front of \<open>s\<close>, as the text of group 1.\<close>

definition match_here :: "pattern \<Rightarrow> string \<Rightarrow> string option" where
  "match_here p s =
     (case concat (map (\<lambda>s1. map (\<lambda>s2. take (length s1 - length s2) s1) (ms (group1 p) s1))
                       (ms (prefix p) s)) of
        [] \<Rightarrow> None
      | cap # _ \<Rightarrow> Some cap)"

text \<open>\<^verbatim>\<open>re.search(pattern, text, re.IGNORECASE | re.MULTILINE)\<close>, as the text of
  \<^verbatim>\<open>match.group(1)\<close>: the leftmost start that matches wins. \<^verbatim>\<open>re.MULTILINE\<close> changes
  \<^verbatim>\<open>^\<close> and \<^verbatim>\<open>$\<close> only, which no rule uses.\<close>

fun re_search :: "pattern \<Rightarrow> string \<Rightarrow> string option" where
  "re_search p [] = match_here p []"
| "re_search p (c # cs) =
     (case match_here p (c # cs) of Some cap \<Rightarrow> Some cap | None \<Rightarrow> re_search p cs)"

subsection \<open>\<^verbatim>\<open>PatternExtractor.PATTERNS\<close>\<close>

text \<open>A run of literal characters, such as \<^verbatim>\<open>Invoice\<close>; a sequence of parts.\<close>

fun lit :: "string \<Rightarrow> regex" where
  "lit [] = Eps"
| "lit (c # cs) = Seq (Atom (Lit c)) (lit cs)"

fun cat :: "regex list \<Rightarrow> regex" where
  "cat [] = Eps"
| "cat (r # rs) = Seq r (cat rs)"

definition star :: "atom \<Rightarrow> regex" where "star a = Rep a 0 None"
definition plus1 :: "atom \<Rightarrow> regex" where "plus1 a = Rep a 1 None"
definition opt :: "atom \<Rightarrow> regex" where "opt a = Rep a 0 (Some 1)"

text \<open>\<^verbatim>\<open>[\s:]\<close>, \<^verbatim>\<open>[A-Z0-9\-]\<close>, \<^verbatim>\<open>[-/]\<close>, \<^verbatim>\<open>[\s\-]\<close>, \<^verbatim>\<open>[0-9,]\<close>, \<^verbatim>\<open>[0-9]\<close>.\<close>

definition space_colon :: atom where "space_colon = Set [ISpace, IChar CHR '':'']"
definition id_char :: atom where
  "id_char = Set [IRange CHR ''A'' CHR ''Z'', IRange CHR ''0'' CHR ''9'', IChar CHR ''-'']"
definition date_sep :: atom where "date_sep = Set [IChar CHR ''-'', IChar CHR ''/'']"
definition space_dash :: atom where "space_dash = Set [ISpace, IChar CHR ''-'']"
definition digit_comma :: atom where
  "digit_comma = Set [IRange CHR ''0'' CHR ''9'', IChar CHR '','']"
definition digit09 :: atom where "digit09 = Set [IRange CHR ''0'' CHR ''9'']"

text \<open>\<^verbatim>\<open>(\d{1,2}[-/]\d{1,2}[-/]\d{2,4})\<close>\<close>

definition date_group :: regex where
  "date_group = cat [Rep Dig 1 (Some 2), Atom date_sep, Rep Dig 1 (Some 2), Atom date_sep,
     Rep Dig 2 (Some 4)]"

text \<open>\<^verbatim>\<open>([0-9,]+\.[0-9]{2})\<close>\<close>

definition amount_group :: regex where
  "amount_group = cat [plus1 digit_comma, Atom (Lit CHR ''.''), Rep digit09 2 (Some 2)]"

text \<open>\<^verbatim>\<open>LABEL[\s:]*(date)\<close> and \<^verbatim>\<open>LABEL[\s:]*\$?(amount)\<close>.\<close>

definition date_rule :: "regex \<Rightarrow> pattern" where
  "date_rule label = \<lparr>prefix = cat [label, star space_colon], group1 = date_group\<rparr>"

definition amount_rule :: "regex \<Rightarrow> pattern" where
  "amount_rule label =
     \<lparr>prefix = cat [label, star space_colon, opt (Lit CHR ''$'')], group1 = amount_group\<rparr>"

definition invoice_number_patterns :: "pattern list" where
  \<open>invoice_number_patterns =
   [ \<comment> \<open>\<^verbatim>\<open>Invoice\s*(?:Number|No\.?|#)[\s:]*([A-Z0-9\-]+)\<close>\<close>
     \<lparr>prefix = cat [lit ''Invoice'', star Spc,
                     Alt (lit ''Number'') (Alt (cat [lit ''No'', opt (Lit CHR ''.'')]) (lit ''#'')),
                     star space_colon],
      group1 = plus1 id_char\<rparr>,
     \<comment> \<open>\<^verbatim>\<open>Invoice\s*#?[\s:]*([A-Z0-9\-]{4,})\<close>\<close>
     \<lparr>prefix = cat [lit ''Invoice'', star Spc, opt (Lit CHR ''#''), star space_colon],
      group1 = Rep id_char 4 None\<rparr>,
     \<comment> \<open>\<^verbatim>\<open>INV[\s\-]?([A-Z0-9\-]+)\<close>\<close>
     \<lparr>prefix = cat [lit ''INV'', opt space_dash],
      group1 = plus1 id_char\<rparr> ]\<close>

definition invoice_date_patterns :: "pattern list" where
  \<open>invoice_date_patterns =
   [ \<comment> \<open>\<^verbatim>\<open>Invoice\s*Date[\s:]*(\d{1,2}[-/]\d{1,2}[-/]\d{2,4})\<close>\<close>
     date_rule (cat [lit ''Invoice'', star Spc, lit ''Date'']),
     \<comment> \<open>\<^verbatim>\<open>Date[\s:]*(\d{1,2}[-/]\d{1,2}[-/]\d{2,4})\<close>\<close>
     date_rule (lit ''Date''),
     \<comment> \<open>\<^verbatim>\<open>(\d{1,2}[-/]\d{1,2}[-/]\d{2,4})\<close>\<close>
     \<lparr>prefix = Eps, group1 = date_group\<rparr> ]\<close>

definition due_date_patterns :: "pattern list" where
  \<open>due_date_patterns =
   [ \<comment> \<open>\<^verbatim>\<open>Due\s*Date[\s:]*(\d{1,2}[-/]\d{1,2}[-/]\d{2,4})\<close>\<close>
     date_rule (cat [lit ''Due'', star Spc, lit ''Date'']),
     \<comment> \<open>\<^verbatim>\<open>Payment\s*Due[\s:]*(\d{1,2}[-/]\d{1,2}[-/]\d{2,4})\<close>\<close>
     date_rule (cat [lit ''Payment'', star Spc, lit ''Due'']) ]\<close>

definition total_amount_patterns :: "pattern list" where
  \<open>total_amount_patterns =
   [ \<comment> \<open>\<^verbatim>\<open>Total[\s:]*\$?([0-9,]+\.[0-9]{2})\<close>\<close>
     amount_rule (lit ''Total''),
     \<comment> \<open>\<^verbatim>\<open>Grand\s*Total[\s:]*\$?([0-9,]+\.[0-9]{2})\<close>\<close>
     amount_rule (cat [lit ''Grand'', star Spc, lit ''Total'']),
     \<comment> \<open>\<^verbatim>\<open>TOTAL[\s:]*\$?([0-9,]+\.[0-9]{2})\<close>\<close>
     amount_rule (lit ''TOTAL'') ]\<close>

definition tax_amount_patterns :: "pattern list" where
  \<open>tax_amount_patterns =
   [ \<comment> \<open>\<^verbatim>\<open>Tax[\s:]*\$?([0-9,]+\.[0-9]{2})\<close>\<close>
     amount_rule (lit ''Tax''),
     \<comment> \<open>\<^verbatim>\<open>GST[\s:]*\$?([0-9,]+\.[0-9]{2})\<close>\<close>
     amount_rule (lit ''GST''),
     \<comment> \<open>\<^verbatim>\<open>VAT[\s:]*\$?([0-9,]+\.[0-9]{2})\<close>\<close>
     amount_rule (lit ''VAT'') ]\<close>

definition subtotal_patterns :: "pattern list" where
  \<open>subtotal_patterns =
   [ \<comment> \<open>\<^verbatim>\<open>Subtotal[\s:]*\$?([0-9,]+\.[0-9]{2})\<close>\<close>
     amount_rule (lit ''Subtotal''),
     \<comment> \<open>\<^verbatim>\<open>Sub[\s-]?Total[\s:]*\$?([0-9,]+\.[0-9]{2})\<close>\<close>
     amount_rule (cat [lit ''Sub'', opt space_dash, lit ''Total'']) ]\<close>

text \<open>The dictionary, by key.\<close>

definition PATTERNS :: "string \<Rightarrow> pattern list option" where
  "PATTERNS = map_of
     [ (''invoice_number'', invoice_number_patterns),
       (''invoice_date'', invoice_date_patterns),
       (''due_date'', due_date_patterns),
       (''total_amount'', total_amount_patterns),
       (''tax_amount'', tax_amount_patterns),
       (''subtotal'', subtotal_patterns) ]"

subsection \<open>\<^verbatim>\<open>PatternExtractor.extract_field\<close>\<close>

text \<open>The loop over \<^verbatim>\<open>enumerate(patterns)\<close>, from index \<open>idx\<close> on: the first rule that
  matches returns, with confidence \<^verbatim>\<open>1.0 - (pattern_idx * 0.1)\<close>.\<close>

fun extract_loop :: "nat \<Rightarrow> pattern list \<Rightarrow> string \<Rightarrow> string option \<times> rat" where
  "extract_loop idx [] text = (None, 0)"
| "extract_loop idx (p # ps) text =
     (case re_search p text of
        Some cap \<Rightarrow> (Some (strip cap), 1 - of_nat idx * (1 / 10))
      | None \<Rightarrow> extract_loop (Suc idx) ps text)"

definition extract_field :: "string \<Rightarrow> string \<Rightarrow> string option \<times> rat" where
  "extract_field text field_type =
     extract_loop 0 (case PATTERNS field_type of None \<Rightarrow> [] | Some ps \<Rightarrow> ps) text"

subsection \<open>\<^verbatim>\<open>PatternExtractor.extract_vendor_name\<close>\<close>

definition stoplist :: "string list" where
  "stoplist = [''invoice'', ''bill'', ''receipt'', ''quote'', ''date:'', ''invoice #'']"

text \<open>The test on one line: \<^verbatim>\<open>stripped and len(stripped) > 5 and len(stripped) < 100\<close>,
  and then no keyword of the stoplist in \<^verbatim>\<open>stripped.lower()\<close>.\<close>

definition vendor_candidate :: "string \<Rightarrow> bool" where
  "vendor_candidate stripped =
     (stripped \<noteq> [] \<and> length stripped > 5 \<and> length stripped < 100
      \<and> \<not> list_ex (\<lambda>keyword. contains keyword (lower stripped)) stoplist)"

text \<open>The loop \<^verbatim>\<open>for line in lines[:20]\<close>, with its early return.\<close>

fun vendor_loop :: "string list \<Rightarrow> string \<times> rat" where
  "vendor_loop [] = ([], 0)"
| "vendor_loop (line # rest) =
     (let stripped = strip line
      in if vendor_candidate stripped then (stripped, 7 / 10) else vendor_loop rest)"

definition extract_vendor_name :: "string \<Rightarrow> string \<times> rat" where
  "extract_vendor_name text = vendor_loop (take 20 (split CHR 0x0A text))"

subsection \<open>\<^verbatim>\<open>PatternExtractor.extract_amounts\<close>\<close>

datatype error = ImportError | ValueError | ReadError string

text \<open>
  \<^verbatim>\<open>float(s)\<close> on the plain decimal forms: optional surrounding whitespace, an optional
  sign, digits with an optional point. Python also reads exponents, underscores,
  \<^verbatim>\<open>inf\<close> and \<^verbatim>\<open>nan\<close>; here they are a \<open>ValueError\<close>, so a text that parses here
  parses in Python, to the same number before rounding.
\<close>

definition digits_val :: "string \<Rightarrow> nat" where
  "digits_val ds = foldl (\<lambda>a c. 10 * a + (ord c - 48)) 0 ds"

definition py_float :: "string \<Rightarrow> error + rat" where
  "py_float s =
     (let t = strip s;
          neg = (t \<noteq> [] \<and> hd t = CHR ''-'');
          u = (if t \<noteq> [] \<and> (hd t = CHR ''-'' \<or> hd t = CHR ''+'') then tl t else t);
          ip = takeWhile py_isdigit u;
          rest = dropWhile py_isdigit u;
          fp = (if rest = [] then [] else tl rest)
      in if (rest = [] \<or> hd rest = CHR ''.'') \<and> list_all py_isdigit fp \<and> (ip \<noteq> [] \<or> fp \<noteq> [])
         then Inr ((if neg then - 1 else 1) *
                   (of_nat (digits_val ip) + of_nat (digits_val fp) / 10 ^ length fp))
         else Inl ValueError)"

text \<open>One of the three blocks of \<^verbatim>\<open>extract_amounts\<close>: the field is looked up, and a
  non-empty text is parsed after \<^verbatim>\<open>.replace(",", "").replace("$", "")\<close> and stored under
  \<open>key\<close>; \<^verbatim>\<open>float\<close> may raise.\<close>

definition amount_step ::
  "string \<Rightarrow> string \<Rightarrow> string \<Rightarrow> (string \<rightharpoonup> rat \<times> rat) \<Rightarrow> error + (string \<rightharpoonup> rat \<times> rat)" where
  "amount_step text field_type key amounts =
     (case extract_field text field_type of
        (None, conf) \<Rightarrow> Inr amounts
      | (Some str, conf) \<Rightarrow>
          if str = [] then Inr amounts
          else (case py_float (remove_char CHR ''$'' (remove_char CHR '','' str)) of
                  Inl e \<Rightarrow> Inl e
                | Inr v \<Rightarrow> Inr (amounts(key \<mapsto> (v, conf)))))"

definition extract_amounts :: "string \<Rightarrow> error + (string \<rightharpoonup> rat \<times> rat)" where
  "extract_amounts text =
     (case amount_step text ''total_amount'' ''total'' Map.empty of
        Inl e \<Rightarrow> Inl e
      | Inr a1 \<Rightarrow>
          (case amount_step text ''tax_amount'' ''tax'' a1 of
             Inl e \<Rightarrow> Inl e
           | Inr a2 \<Rightarrow> amount_step text ''subtotal'' ''subtotal'' a2))"

subsection \<open>\<^verbatim>\<open>ExtractedInvoice\<close>, \<^verbatim>\<open>PDFContentReader\<close>\<close>

record ExtractedInvoice =
  file_name :: string
  invoice_number :: string
  invoice_date :: string
  due_date :: string
  vendor_name :: string
  vendor_address :: string
  customer_name :: string
  customer_address :: string
  subtotal :: rat
  tax_amount :: rat
  total_amount :: rat
  currency :: string
  line_items :: "string list"
  raw_text :: string
  confidence_score :: rat

text \<open>\<^verbatim>\<open>ExtractedInvoice(file_name=file_name)\<close>: every other field at its default.\<close>

definition new_invoice :: "string \<Rightarrow> ExtractedInvoice" where
  "new_invoice name =
     \<lparr>file_name = name, invoice_number = [], invoice_date = [], due_date = [],
      vendor_name = [], vendor_address = [], customer_name = [], customer_address = [],
      subtotal = 0, tax_amount = 0, total_amount = 0, currency = ''USD'', line_items = [],
      raw_text = [], confidence_score = 0\<rparr>"

text \<open>
  What lies outside the program: whether \<^verbatim>\<open>PyPDF2\<close> was imported, what opening a file
  and reading its pages gives (the page texts, or the exception raised on the way), whether
  a directory exists and which paths \<^verbatim>\<open>glob("*.pdf")\<close> lists in it.
\<close>

record world =
  pypdf2_present :: bool
  read_pages :: "string \<Rightarrow> error + string list"
  dir_exists :: "string \<Rightarrow> bool"
  glob_pdf :: "string \<Rightarrow> string list"

datatype log_entry =
    ErrorExtractingText string error
  | ErrorExtractingFields string error
  | ErrorProcessing string error
  | InfoExtracted string
  | WarningNotFound string

text \<open>\<^verbatim>\<open>PDFContentReader.extract_text\<close>: the \<open>ImportError\<close> is raised before the
  \<^verbatim>\<open>try\<close>; an exception inside it is logged and raised again.\<close>

definition extract_text :: "world \<Rightarrow> string \<Rightarrow> (error + string) \<times> log_entry list" where
  "extract_text w pdf_path =
     (if \<not> pypdf2_present w then (Inl ImportError, [])
      else (case read_pages w pdf_path of
              Inl e \<Rightarrow> (Inl e, [ErrorExtractingText pdf_path e])
            | Inr pages \<Rightarrow> (Inr (join [CHR 0x0A] pages), [])))"

text \<open>\<^verbatim>\<open>Path(pdf_path).name\<close> on POSIX: the last component of the path, where empty
  components and \<^verbatim>\<open>.\<close> do not count; the empty text when there is none.\<close>

definition path_name :: "string \<Rightarrow> string" where
  "path_name p =
     (case rev (filter (\<lambda>part. part \<noteq> [] \<and> part \<noteq> ''.'') (split CHR ''/'' p)) of
        [] \<Rightarrow> []
      | name # _ \<Rightarrow> name)"

subsection \<open>\<^verbatim>\<open>InvoiceFieldExtractor\<close>\<close>

text \<open>\<^verbatim>\<open>value or ""\<close>\<close>

definition or_empty :: "string option \<Rightarrow> string" where
  "or_empty v = (case v of None \<Rightarrow> [] | Some s \<Rightarrow> s)"

text \<open>\<^verbatim>\<open>if key in amounts: field, _ = amounts[key]\<close>\<close>

definition amount_or :: "(string \<rightharpoonup> rat \<times> rat) \<Rightarrow> string \<Rightarrow> rat \<Rightarrow> rat" where
  "amount_or amounts key old = (case amounts key of None \<Rightarrow> old | Some (v, conf) \<Rightarrow> v)"

text \<open>\<^verbatim>\<open>sum(valid_confidences) / len(valid_confidences) if valid_confidences else 0\<close>
  over \<^verbatim>\<open>[c for c in confidences if c > 0]\<close>.\<close>

definition overall_confidence :: "rat list \<Rightarrow> rat" where
  "overall_confidence confidences =
     (let valid_confidences = filter (\<lambda>c. c > 0) confidences
      in if valid_confidences \<noteq> [] then sum_list valid_confidences / of_nat (length valid_confidences)
         else 0)"

text \<open>
  The body of the \<^verbatim>\<open>try\<close> in \<^verbatim>\<open>extract_invoice_fields\<close>, on the invoice built so far.
  \<open>Inl\<close>: an exception left the body, with the invoice as it stood at that point;
  \<open>Inr\<close>: the body ran to its end. The log comes along in both.
\<close>

definition try_extract ::
  "world \<Rightarrow> string \<Rightarrow> ExtractedInvoice
     \<Rightarrow> (error \<times> ExtractedInvoice \<times> log_entry list) + (ExtractedInvoice \<times> log_entry list)" where
  "try_extract w pdf_path invoice0 =
     (case extract_text w pdf_path of
        (Inl e, lg) \<Rightarrow> Inl (e, invoice0, lg)
      | (Inr text, lg) \<Rightarrow>
          (let invoice1 = invoice0\<lparr>raw_text := text\<rparr>;
               (number, inv_conf) = extract_field text ''invoice_number'';
               invoice2 = invoice1\<lparr>invoice_number := or_empty number\<rparr>;
               (date, date_conf) = extract_field text ''invoice_date'';
               invoice3 = invoice2\<lparr>invoice_date := or_empty date\<rparr>;
               (due, due_conf) = extract_field text ''due_date'';
               invoice4 = invoice3\<lparr>due_date := or_empty due\<rparr>
           in case extract_amounts text of
                Inl e \<Rightarrow> Inl (e, invoice4, lg)
              | Inr amounts \<Rightarrow>
                  (let invoice5 = invoice4\<lparr>total_amount := amount_or amounts ''total'' (total_amount invoice4)\<rparr>;
                       invoice6 = invoice5\<lparr>tax_amount := amount_or amounts ''tax'' (tax_amount invoice5)\<rparr>;
                       invoice7 = invoice6\<lparr>subtotal := amount_or amounts ''subtotal'' (subtotal invoice6)\<rparr>;
                       (vendor, vendor_conf) = extract_vendor_name text;
                       invoice8 = invoice7\<lparr>vendor_name := vendor\<rparr>;
                       confidences =
                         [ if invoice_number invoice8 \<noteq> [] then inv_conf else 0,
                           if invoice_date invoice8 \<noteq> [] then date_conf else 0,
                           if total_amount invoice8 > 0 then 8 / 10 else 0 ]
                   in Inr (invoice8\<lparr>confidence_score := overall_confidence confidences\<rparr>,
                           lg @ [InfoExtracted (file_name invoice8)]))))"

text \<open>\<^verbatim>\<open>extract_invoice_fields\<close>: \<^verbatim>\<open>except Exception\<close> logs, and the invoice is
  returned on both paths. The result is a sum because the caller wraps the call in a
  \<^verbatim>\<open>try\<close> of its own.\<close>

definition extract_invoice_fields ::
  "world \<Rightarrow> string \<Rightarrow> error + (ExtractedInvoice \<times> log_entry list)" where
  "extract_invoice_fields w pdf_path =
     (case try_extract w pdf_path (new_invoice (path_name pdf_path)) of
        Inl (e, invoice, lg) \<Rightarrow> Inr (invoice, lg @ [ErrorExtractingFields pdf_path e])
      | Inr (invoice, lg) \<Rightarrow> Inr (invoice, lg))"

text \<open>The loop of \<^verbatim>\<open>extract_multiple_invoices\<close> over the listed files: a record is
  appended, or the exception of the call is logged and the file skipped.\<close>

fun batch_loop ::
  "world \<Rightarrow> string list \<Rightarrow> ExtractedInvoice list \<times> log_entry list
     \<Rightarrow> ExtractedInvoice list \<times> log_entry list" where
  "batch_loop w [] acc = acc"
| "batch_loop w (pdf_file # rest) (invoices, lg) =
     (case extract_invoice_fields w pdf_file of
        Inr (invoice, lg1) \<Rightarrow> batch_loop w rest (invoices @ [invoice], lg @ lg1)
      | Inl e \<Rightarrow> batch_loop w rest (invoices, lg @ [ErrorProcessing pdf_file e]))"

definition extract_multiple_invoices ::
  "world \<Rightarrow> string \<Rightarrow> ExtractedInvoice list \<times> log_entry list" where
  "extract_multiple_invoices w directory =
     (if \<not> dir_exists w directory then ([], [WarningNotFound directory])
      else batch_loop w (glob_pdf w directory) ([], []))"

section \<open>The specification's reading, and sample inputs\<close>

text \<open>
  The vendor heuristic as the specification words it: among the first 20 non-empty lines,
  the first whose trimmed length is strictly between 5 and 100 and whose lower-cased
  content holds no keyword of the stoplist.
\<close>

definition spec_qualifies :: "string \<Rightarrow> bool" where
  "spec_qualifies line =
     (5 < length line \<and> length line < 100
      \<and> list_all (\<lambda>keyword. \<not> contains keyword (lower line)) stoplist)"

definition spec_vendor_name :: "string \<Rightarrow> string \<times> rat" where
  "spec_vendor_name text =
     (case find spec_qualifies
             (map strip (take 20 (filter (\<lambda>line. line \<noteq> []) (split CHR 0x0A text)))) of
        None \<Rightarrow> ([], 0)
      | Some line \<Rightarrow> (line, 7 / 10))"

text \<open>Twenty empty lines, then a vendor line.\<close>

definition blank_lines_then_vendor :: string where
  "blank_lines_then_vendor = replicate 20 (CHR 0x0A) @ ''Acme Corporation''"

text \<open>The end-to-end text of the specification, and a world in which every file reads as
  one page with that text.\<close>

definition example_text :: string where
  "example_text = ''Invoice Number: INV-2024-001'' @ [CHR 0x0A] @ ''Invoice Date: 01/15/2024''
     @ [CHR 0x0A] @ ''Subtotal: $100.00'' @ [CHR 0x0A] @ ''Tax: $8.00'' @ [CHR 0x0A]
     @ ''Total: $108.00''"

definition example_world :: world where
  "example_world = \<lparr>pypdf2_present = True, read_pages = (\<lambda>p. Inr [example_text]),
     dir_exists = (\<lambda>d. True), glob_pdf = (\<lambda>d. [])\<rparr>"

text \<open>A directory of two files, the second of which cannot be read.\<close>

definition two_file_world :: world where
  "two_file_world = \<lparr>pypdf2_present = True,
     read_pages = (\<lambda>p. if p = ''invoices/b.pdf'' then Inl (ReadError ''EOF marker not found'')
                        else Inr [''Total: 5.00'']),
     dir_exists = (\<lambda>d. True),
     glob_pdf = (\<lambda>d. [''invoices/a.pdf'', ''invoices/b.pdf''])\<rparr>"

text \<open>The aggregate confidence as the specification words it: the arithmetic mean of the
  contributions that are not zero, and 0 when there is none.\<close>

definition mean_nonzero :: "rat list \<Rightarrow> rat" where
  "mean_nonzero cs =
     (let nz = filter (\<lambda>c. c \<noteq> 0) cs
      in if nz = [] then 0 else sum_list nz / of_nat (length nz))"

text \<open>A text made of digits and commas, one or more, then a point and two digits.\<close>

definition amount_text :: "string \<Rightarrow> bool" where
  "amount_text cap =
     (case rev cap of
        b # a # d # ds \<Rightarrow>
          py_isdigit b \<and> py_isdigit a \<and> d = CHR ''.'' \<and> ds \<noteq> []
          \<and> list_all (\<lambda>c. py_isdigit c \<or> c = CHR '','') ds
      | _ \<Rightarrow> False)"

text \<open>The record that the code returns on the end-to-end text.\<close>

definition example_record :: ExtractedInvoice where
  "example_record =
     \<lparr>file_name = ''invoice.pdf'', invoice_number = ''INV-2024-001'',
      invoice_date = ''01/15/2024'', due_date = [],
      vendor_name = ''Subtotal: $100.00'', vendor_address = [],
      customer_name = [], customer_address = [], subtotal = 100,
      tax_amount = 8, total_amount = 100, currency = ''USD'',
      line_items = [], raw_text = example_text, confidence_score = 14 / 15\<rparr>"

section \<open>Properties\<close>

subsection \<open>The rule loop of \<^verbatim>\<open>extract_field\<close>\<close>

lemma extract_loop_no_match:
  "\<forall>p\<in>set ps. re_search p text = None \<Longrightarrow> extract_loop idx ps text = (None, 0)"
  by (induction ps arbitrary: idx) simp_all

lemma extract_loop_first_match:
  assumes "i < length ps" "re_search (ps ! i) text = Some cap"
    and "\<forall>j<i. re_search (ps ! j) text = None"
  shows "extract_loop idx ps text = (Some (strip cap), 1 - of_nat (idx + i) * (1 / 10))"
  using assms
proof (induction ps arbitrary: idx i)
  case Nil
  then show ?case by simp
next
  case (Cons p ps)
  show ?case
  proof (cases i)
    case 0
    with Cons.prems show ?thesis by simp
  next
    case (Suc k)
    with Cons.prems have none: "re_search p text = None" by auto
    from Suc Cons.prems have k: "k < length ps" "re_search (ps ! k) text = Some cap"
      "\<forall>j<k. re_search (ps ! j) text = None" by auto
    from Cons.IH [OF k, of "Suc idx"] none Suc show ?thesis by simp
  qed
qed

lemma PATTERNS_cases:
  "PATTERNS ft = Some ps \<Longrightarrow>
     ps = invoice_number_patterns \<or> ps = invoice_date_patterns \<or> ps = due_date_patterns
     \<or> ps = total_amount_patterns \<or> ps = tax_amount_patterns \<or> ps = subtotal_patterns"
  unfolding PATTERNS_def by (simp split: if_splits)

lemma PATTERNS_length: "PATTERNS ft = Some ps \<Longrightarrow> length ps \<le> 3"
  by (drule PATTERNS_cases)
     (auto simp: invoice_number_patterns_def invoice_date_patterns_def
      due_date_patterns_def total_amount_patterns_def tax_amount_patterns_def
      subtotal_patterns_def)

text \<open>
  C4. For a recognized field type, when rule \<open>i\<close> (counted from 0) matches and no rule
  before it does, \<open>extract_field\<close> returns the text captured by rule \<open>i\<close>, trimmed, with
  confidence \<open>1 - i / 10\<close>, which is not negative.
\<close>

theorem extract_field_first_match:
  assumes "PATTERNS field_type = Some rules" "i < length rules"
    and "re_search (rules ! i) text = Some captured"
    and "\<forall>j<i. re_search (rules ! j) text = None"
  shows "extract_field text field_type = (Some (strip captured), 1 - of_nat i / 10)
         \<and> 0 \<le> snd (extract_field text field_type)"
proof -
  have e: "extract_field text field_type = (Some (strip captured), 1 - of_nat i * (1 / 10))"
    using extract_loop_first_match [OF assms(2-4), of 0] assms(1)
    by (simp add: extract_field_def)
  have "i \<le> 3" using PATTERNS_length [OF assms(1)] assms(2) by simp
  then have "(of_nat i :: rat) \<le> of_nat 3" by (simp only: of_nat_le_iff)
  then have "(of_nat i :: rat) \<le> 10" by simp
  with e show ?thesis by simp
qed

theorem extract_field_first_match_witness:
  "PATTERNS ''invoice_date'' = Some invoice_date_patterns
    \<and> (1::nat) < length invoice_date_patterns
    \<and> re_search (invoice_date_patterns ! 1) ''Date: 01/15/2024'' = Some ''01/15/2024''
    \<and> re_search (invoice_date_patterns ! 0) ''Date: 01/15/2024'' = None
    \<and> extract_field ''Date: 01/15/2024'' ''invoice_date'' = (Some ''01/15/2024'', 9 / 10)"
proof -
  have h1: "PATTERNS ''invoice_date'' = Some invoice_date_patterns" by (simp add: PATTERNS_def)
  have h2: "(1::nat) < length invoice_date_patterns" by (simp add: invoice_date_patterns_def)
  have h3: "re_search (invoice_date_patterns ! 1) ''Date: 01/15/2024'' = Some ''01/15/2024''"
    by code_simp
  have h4': "re_search (invoice_date_patterns ! 0) ''Date: 01/15/2024'' = None" by code_simp
  have h4: "\<forall>j<(1::nat). re_search (invoice_date_patterns ! j) ''Date: 01/15/2024'' = None"
  proof (intro allI impI)
    fix j :: nat assume "j < 1"
    then have "j = 0" by simp
    with h4' show "re_search (invoice_date_patterns ! j) ''Date: 01/15/2024'' = None"
      by (simp only:)
  qed
  have s: "strip ''01/15/2024'' = ''01/15/2024''" by code_simp
  have n: "1 - of_nat 1 / 10 = (9 / 10 :: rat)" by simp
  have "extract_field ''Date: 01/15/2024'' ''invoice_date''
          = (Some (strip ''01/15/2024''), 1 - of_nat 1 / 10)"
    using extract_field_first_match [OF h1 h2 h3 h4] by (rule conjunct1)
  then have c: "extract_field ''Date: 01/15/2024'' ''invoice_date'' = (Some ''01/15/2024'', 9 / 10)"
    by (simp only: s n)
  from h1 h2 h3 h4' c show ?thesis by (intro conjI)
qed

text \<open>
  C6. \<open>extract_field\<close> has no raising path: it is a total function of the text and the
  field type. A field type that is not a key of the catalog gives an absent value with
  confidence 0, and so does a recognized field type none of whose rules matches.
\<close>

theorem extract_field_absent:
  "(PATTERNS field_type = None \<longrightarrow> extract_field text field_type = (None, 0))
   \<and> (\<forall>rules. PATTERNS field_type = Some rules \<and> (\<forall>p\<in>set rules. re_search p text = None)
         \<longrightarrow> extract_field text field_type = (None, 0))"
  by (auto simp: extract_field_def extract_loop_no_match)

theorem extract_field_absent_witness:
  "PATTERNS ''vendor_name'' = None \<and> extract_field ''Total: 5.00'' ''vendor_name'' = (None, 0)
   \<and> PATTERNS ''due_date'' = Some due_date_patterns
   \<and> re_search (due_date_patterns ! 0) ''Total: 5.00'' = None
   \<and> re_search (due_date_patterns ! 1) ''Total: 5.00'' = None
   \<and> extract_field ''Total: 5.00'' ''due_date'' = (None, 0)"
proof -
  have h1: "PATTERNS ''vendor_name'' = None" by (simp add: PATTERNS_def)
  have h2: "PATTERNS ''due_date'' = Some due_date_patterns" by (simp add: PATTERNS_def)
  have a: "re_search (due_date_patterns ! 0) ''Total: 5.00'' = None" by code_simp
  have b: "re_search (due_date_patterns ! 1) ''Total: 5.00'' = None" by code_simp
  have h3: "\<forall>p\<in>set due_date_patterns. re_search p ''Total: 5.00'' = None"
    using a b by (simp add: due_date_patterns_def)
  from extract_field_absent [of "''vendor_name''" "''Total: 5.00''"] h1
  have r1: "extract_field ''Total: 5.00'' ''vendor_name'' = (None, 0)" by blast
  from extract_field_absent [of "''due_date''" "''Total: 5.00''"] h2 h3
  have r2: "extract_field ''Total: 5.00'' ''due_date'' = (None, 0)" by blast
  from h1 r1 h2 a b r2 show ?thesis by (intro conjI)
qed

subsection \<open>The vendor heuristic\<close>

lemma vendor_candidate_iff: "vendor_candidate s = spec_qualifies s"
  by (auto simp: vendor_candidate_def spec_qualifies_def list_all_iff list_ex_iff)

lemma vendor_loop_find:
  "vendor_loop ls = (case find spec_qualifies (map strip ls) of
                       None \<Rightarrow> ([], 0) | Some line \<Rightarrow> (line, 7 / 10))"
  by (induction ls) (simp_all add: vendor_candidate_iff Let_def)

text \<open>\<open>contains\<close> is the substring test.\<close>

lemma starts_with_iff: "starts_with k s \<longleftrightarrow> (\<exists>ss. s = k @ ss)"
  by (induction k s rule: starts_with.induct) auto

lemma contains_iff: "contains k s \<longleftrightarrow> (\<exists>ps ss. s = ps @ k @ ss)"
proof (induction s)
  case Nil
  then show ?case by (simp add: starts_with_iff)
next
  case (Cons c cs)
  show ?case
  proof
    assume "contains k (c # cs)"
    then consider "starts_with k (c # cs)" | "contains k cs" by auto
    then show "\<exists>ps ss. c # cs = ps @ k @ ss"
    proof cases
      case 1
      then obtain ss where "c # cs = k @ ss" by (auto simp: starts_with_iff)
      then have "c # cs = [] @ k @ ss" by simp
      then show ?thesis by blast
    next
      case 2
      with Cons.IH obtain ps ss where "cs = ps @ k @ ss" by auto
      then have "c # cs = (c # ps) @ k @ ss" by simp
      then show ?thesis by blast
    qed
  next
    assume "\<exists>ps ss. c # cs = ps @ k @ ss"
    then obtain ps ss where e: "c # cs = ps @ k @ ss" by auto
    show "contains k (c # cs)"
    proof (cases ps)
      case Nil
      with e have "starts_with k (c # cs)" by (auto simp: starts_with_iff)
      then show ?thesis by simp
    next
      case (Cons p ps')
      with e have "cs = ps' @ k @ ss" by simp
      with Cons.IH have "contains k cs" by blast
      then show ?thesis by simp
    qed
  qed
qed

text \<open>
  C5, as the code has it. \<open>extract_vendor_name\<close> looks at the first 20 lines of the text,
  empty ones counted among the 20, and returns the first of them whose trimmed length is
  strictly between 5 and 100 and whose lower-cased content holds no keyword of the
  stoplist, with confidence 0.7; when none qualifies it returns the empty text with
  confidence 0.
\<close>

theorem extract_vendor_name_first_20_lines:
  "extract_vendor_name text =
     (case find spec_qualifies (map strip (take 20 (split CHR 0x0A text))) of
        None \<Rightarrow> ([], 0)
      | Some line \<Rightarrow> (line, 7 / 10))"
  by (simp add: extract_vendor_name_def vendor_loop_find)

theorem extract_vendor_name_first_20_lines_witness:
  "extract_vendor_name (''INVOICE #12345'' @ [CHR 0x0A] @ ''  Acme Corporation '')
     = (''Acme Corporation'', 7 / 10)"
proof -
  have "(case find spec_qualifies (map strip (take 20 (split CHR 0x0A
            (''INVOICE #12345'' @ [CHR 0x0A] @ ''  Acme Corporation '')))) of
           None \<Rightarrow> ([], 0::rat)
         | Some line \<Rightarrow> (line, 7 / 10)) = (''Acme Corporation'', 7 / 10)"
    by code_simp
  with extract_vendor_name_first_20_lines
         [of "''INVOICE #12345'' @ [CHR 0x0A] @ ''  Acme Corporation ''"]
  show ?thesis by (simp only:)
qed

text \<open>
  C5, as the specification words it, fails: after twenty empty lines the code has used up
  its 20 lines and returns the empty text, while the first 20 non-empty lines hold a line
  that qualifies.
\<close>

theorem vendor_after_blank_lines_counterexample:
  "extract_vendor_name blank_lines_then_vendor = ([], 0)
   \<and> spec_vendor_name blank_lines_then_vendor = (''Acme Corporation'', 7 / 10)"
proof -
  have a: "extract_vendor_name blank_lines_then_vendor = ([], 0)" by code_simp
  have b: "spec_vendor_name blank_lines_then_vendor = (''Acme Corporation'', 7 / 10)"
    by code_simp
  from a b show ?thesis by (rule conjI)
qed

subsection \<open>One document, and a batch\<close>

lemma try_extract_Inl:
  "try_extract w p inv0 = Inl (e, iv, lg) \<Longrightarrow> file_name iv = file_name inv0"
  by (auto simp: try_extract_def Let_def split: prod.splits sum.splits)

lemma try_extract_Inr:
  "try_extract w p inv0 = Inr (iv, lg) \<Longrightarrow> file_name iv = file_name inv0"
  by (auto simp: try_extract_def Let_def split: prod.splits sum.splits)

lemma try_extract_decode_fails:
  "fst (extract_text w p) = Inl e \<Longrightarrow>
     try_extract w p inv0 = Inl (e, inv0, snd (extract_text w p))"
  by (cases "extract_text w p") (simp add: try_extract_def)

lemma extract_invoice_fields_returns:
  "\<exists>iv lg. extract_invoice_fields w p = Inr (iv, lg) \<and> file_name iv = path_name p"
proof (cases "try_extract w p (new_invoice (path_name p))")
  case (Inl t)
  obtain e iv lg where t: "t = (e, iv, lg)" by (cases t)
  with Inl try_extract_Inl [of w p "new_invoice (path_name p)" e iv lg]
  show ?thesis by (simp add: extract_invoice_fields_def new_invoice_def)
next
  case (Inr t)
  obtain iv lg where t: "t = (iv, lg)" by (cases t)
  with Inr try_extract_Inr [of w p "new_invoice (path_name p)" iv lg]
  show ?thesis by (simp add: extract_invoice_fields_def new_invoice_def)
qed

lemma extract_invoice_fields_decode_fails:
  "fst (extract_text w p) = Inl e \<Longrightarrow>
     extract_invoice_fields w p =
       Inr (new_invoice (path_name p), snd (extract_text w p) @ [ErrorExtractingFields p e])"
  by (simp add: extract_invoice_fields_def try_extract_decode_fails)

lemma batch_loop_eq:
  "batch_loop w fs (invs, lg) =
     (invs @ map (\<lambda>f. fst (projr (extract_invoice_fields w f))) fs,
      lg @ concat (map (\<lambda>f. snd (projr (extract_invoice_fields w f))) fs))"
proof (induction fs arbitrary: invs lg)
  case Nil
  then show ?case by simp
next
  case (Cons f fs)
  obtain iv l1 where r: "extract_invoice_fields w f = Inr (iv, l1)"
    using extract_invoice_fields_returns [of w f] by blast
  show ?case by (simp add: r Cons.IH)
qed

lemma two_file_world_facts:
  "dir_exists two_file_world ''invoices''"
  "glob_pdf two_file_world ''invoices'' = [''invoices/a.pdf'', ''invoices/b.pdf'']"
  "fst (extract_text two_file_world ''invoices/b.pdf'') = Inl (ReadError ''EOF marker not found'')"
  "fst (extract_text two_file_world ''invoices/a.pdf'') = Inr ''Total: 5.00''"
  "path_name ''invoices/a.pdf'' = ''a.pdf''"
  "path_name ''invoices/b.pdf'' = ''b.pdf''"
  by code_simp+

text \<open>
  C9. \<open>extract_invoice_fields\<close> never raises: it returns a record whose \<open>file_name\<close> is
  the base name of the path. When decoding fails, the record is the default one and the
  failure is in the log. So \<open>extract_multiple_invoices\<close> returns one record for each file
  listed, in order, the files that could not be decoded among them.
\<close>

theorem extract_invoice_fields_always_returns:
  "(\<exists>iv lg. extract_invoice_fields w p = Inr (iv, lg) \<and> file_name iv = path_name p
       \<and> (\<forall>e. fst (extract_text w p) = Inl e \<longrightarrow>
             iv = new_invoice (path_name p) \<and> ErrorExtractingFields p e \<in> set lg))
   \<and> (dir_exists w d \<longrightarrow>
        map file_name (fst (extract_multiple_invoices w d)) = map path_name (glob_pdf w d))"
proof (intro conjI impI)
  obtain iv lg where r: "extract_invoice_fields w p = Inr (iv, lg)"
    "file_name iv = path_name p"
    using extract_invoice_fields_returns [of w p] by blast
  have "\<forall>e. fst (extract_text w p) = Inl e \<longrightarrow>
             iv = new_invoice (path_name p) \<and> ErrorExtractingFields p e \<in> set lg"
  proof (intro allI impI)
    fix e assume "fst (extract_text w p) = Inl e"
    from extract_invoice_fields_decode_fails [OF this] r(1)
    show "iv = new_invoice (path_name p) \<and> ErrorExtractingFields p e \<in> set lg" by simp
  qed
  with r show "\<exists>iv lg. extract_invoice_fields w p = Inr (iv, lg) \<and> file_name iv = path_name p
       \<and> (\<forall>e. fst (extract_text w p) = Inl e \<longrightarrow>
             iv = new_invoice (path_name p) \<and> ErrorExtractingFields p e \<in> set lg)"
    by blast
next
  assume d: "dir_exists w d"
  have "\<And>f. file_name (fst (projr (extract_invoice_fields w f))) = path_name f"
  proof -
    fix f
    obtain iv lg where "extract_invoice_fields w f = Inr (iv, lg)" "file_name iv = path_name f"
      using extract_invoice_fields_returns [of w f] by blast
    then show "file_name (fst (projr (extract_invoice_fields w f))) = path_name f" by simp
  qed
  with d show "map file_name (fst (extract_multiple_invoices w d)) = map path_name (glob_pdf w d)"
    by (simp add: extract_multiple_invoices_def batch_loop_eq comp_def)
qed

theorem extract_invoice_fields_always_returns_witness:
  "(\<exists>iv lg. extract_invoice_fields two_file_world ''invoices/b.pdf'' = Inr (iv, lg)
       \<and> iv = new_invoice ''b.pdf''
       \<and> ErrorExtractingFields ''invoices/b.pdf'' (ReadError ''EOF marker not found'') \<in> set lg)
   \<and> map file_name (fst (extract_multiple_invoices two_file_world ''invoices''))
       = [''a.pdf'', ''b.pdf'']"
  using extract_invoice_fields_always_returns
          [of two_file_world "''invoices/b.pdf''" "''invoices''"]
  by (auto simp: two_file_world_facts)

text \<open>
  C2, as the code has it. In a batch over the files of an existing directory, a file whose
  decoding fails is not skipped: the batch returns as many records as there are files, the
  record at the place of the failing file is the default record under its base name, and
  the failure is logged, not raised.
\<close>

theorem batch_keeps_failed_document:
  assumes "dir_exists w d" "i < length (glob_pdf w d)"
    and "fst (extract_text w (glob_pdf w d ! i)) = Inl e"
  shows "length (fst (extract_multiple_invoices w d)) = length (glob_pdf w d)
     \<and> fst (extract_multiple_invoices w d) ! i = new_invoice (path_name (glob_pdf w d ! i))
     \<and> ErrorExtractingFields (glob_pdf w d ! i) e \<in> set (snd (extract_multiple_invoices w d))"
proof -
  let ?f = "glob_pdf w d ! i"
  have r: "extract_invoice_fields w ?f =
       Inr (new_invoice (path_name ?f), snd (extract_text w ?f) @ [ErrorExtractingFields ?f e])"
    using assms(3) by (rule extract_invoice_fields_decode_fails)
  have m: "?f \<in> set (glob_pdf w d)" using assms(2) by simp
  have "ErrorExtractingFields ?f e \<in> set (snd (projr (extract_invoice_fields w ?f)))"
    by (simp add: r)
  with m have "ErrorExtractingFields ?f e \<in> set (snd (extract_multiple_invoices w d))"
    using assms(1) by (auto simp: extract_multiple_invoices_def batch_loop_eq)
  moreover have "fst (extract_multiple_invoices w d) ! i = new_invoice (path_name ?f)"
    using assms(1,2) by (simp add: extract_multiple_invoices_def batch_loop_eq r)
  moreover have "length (fst (extract_multiple_invoices w d)) = length (glob_pdf w d)"
    using assms(1) by (simp add: extract_multiple_invoices_def batch_loop_eq)
  ultimately show ?thesis by blast
qed

theorem batch_keeps_failed_document_witness:
  "dir_exists two_file_world ''invoices''
   \<and> (1::nat) < length (glob_pdf two_file_world ''invoices'')
   \<and> fst (extract_text two_file_world (glob_pdf two_file_world ''invoices'' ! 1))
       = Inl (ReadError ''EOF marker not found'')
   \<and> length (fst (extract_multiple_invoices two_file_world ''invoices'')) = 2
   \<and> fst (extract_multiple_invoices two_file_world ''invoices'') ! 1 = new_invoice ''b.pdf''
   \<and> ErrorExtractingFields ''invoices/b.pdf'' (ReadError ''EOF marker not found'')
       \<in> set (snd (extract_multiple_invoices two_file_world ''invoices''))"
proof -
  have h1: "dir_exists two_file_world ''invoices''" by (rule two_file_world_facts)
  have h2: "(1::nat) < length (glob_pdf two_file_world ''invoices'')"
    by (simp add: two_file_world_facts)
  have h3: "fst (extract_text two_file_world (glob_pdf two_file_world ''invoices'' ! 1))
       = Inl (ReadError ''EOF marker not found'')"
    by (simp add: two_file_world_facts)
  from batch_keeps_failed_document [OF h1 h2 h3] h1 h2 h3
  show ?thesis by (simp add: two_file_world_facts)
qed

text \<open>
  C2, as the specification words it, fails: of two files one cannot be decoded, and the
  batch returns two records, not one; the second is the placeholder for the failed file.
\<close>

theorem batch_of_two_counterexample:
  "length (glob_pdf two_file_world ''invoices'') = 2
   \<and> fst (extract_text two_file_world ''invoices/a.pdf'') = Inr ''Total: 5.00''
   \<and> fst (extract_text two_file_world ''invoices/b.pdf'')
       = Inl (ReadError ''EOF marker not found'')
   \<and> length (fst (extract_multiple_invoices two_file_world ''invoices'')) = 2
   \<and> fst (extract_multiple_invoices two_file_world ''invoices'') ! 1 = new_invoice ''b.pdf''"
  by code_simp

lemma example_eval:
  "extract_invoice_fields example_world ''invoice.pdf'' =
   Inr (\<lparr>file_name = ''invoice.pdf'', invoice_number = ''INV-2024-001'',
         invoice_date = ''01/15/2024'', due_date = [],
         vendor_name = ''Subtotal: $100.00'', vendor_address = [],
         customer_name = [], customer_address = [], subtotal = 100,
         tax_amount = 8, total_amount = 100, currency = ''USD'',
         line_items = [], raw_text = example_text, confidence_score = 14 / 15\<rparr>,
        [InfoExtracted ''invoice.pdf''])"
  by code_simp

lemma example_eval_record:
  "extract_invoice_fields example_world ''invoice.pdf''
     = Inr (example_record, [InfoExtracted ''invoice.pdf''])"
  unfolding example_record_def by (rule example_eval)

text \<open>
  C3. On the end-to-end text of the specification the record has the invoice number, the
  date, the subtotal 100 and the tax 8 that the specification names, and a confidence
  between 0.8 and 1; but \<open>total_amount\<close> is 100, not 108: under \<^verbatim>\<open>re.IGNORECASE\<close> the
  rule \<^verbatim>\<open>Total...\<close> matches first inside \<^verbatim>\<open>Subtotal: $100.00\<close>.
\<close>

theorem example_total_is_subtotal:
  "extract_invoice_fields example_world ''invoice.pdf'' =
   Inr (\<lparr>file_name = ''invoice.pdf'', invoice_number = ''INV-2024-001'',
         invoice_date = ''01/15/2024'', due_date = [],
         vendor_name = ''Subtotal: $100.00'', vendor_address = [],
         customer_name = [], customer_address = [], subtotal = 100,
         tax_amount = 8, total_amount = 100, currency = ''USD'',
         line_items = [], raw_text = example_text, confidence_score = 14 / 15\<rparr>,
        [InfoExtracted ''invoice.pdf''])"
  by (rule example_eval)

subsection \<open>What the amount rules capture\<close>

lemma run_le_length: "run a n s \<le> length s"
  by (induction s arbitrary: n) auto

lemma run_amatch: "c \<in> set (take (run a n s) s) \<Longrightarrow> amatch a c"
  by (induction s arbitrary: n) (auto split: if_splits)

lemma run_bound: "run a (Some k) s \<le> k"
proof (induction s arbitrary: k)
  case Nil
  then show ?case by simp
next
  case (Cons c cs)
  show ?case
  proof (cases k)
    case 0
    then show ?thesis by simp
  next
    case (Suc j)
    with Cons.IH [of j] show ?thesis by simp
  qed
qed

lemma ms_Rep_elem:
  assumes "s' \<in> set (ms (Rep a m n) s)"
  shows "\<exists>w. s = w @ s' \<and> m \<le> length w \<and> (\<forall>c\<in>set w. amatch a c)
              \<and> (\<forall>k. n = Some k \<longrightarrow> length w \<le> k)"
proof -
  from assms obtain j where j: "m \<le> j" "j \<le> run a n s" "s' = drop j s" by auto
  let ?w = "take j s"
  have len: "length ?w = j" using j(2) run_le_length [of a n s] by simp
  have "set ?w \<subseteq> set (take (run a n s) s)" using j(2) by (rule set_take_subset_set_take)
  then have all: "\<forall>c\<in>set ?w. amatch a c" using run_amatch by blast
  have bnd: "\<forall>k. n = Some k \<longrightarrow> length ?w \<le> k"
    using len j(2) run_bound [of a _ s] by (metis le_trans)
  have "s = ?w @ s'" using j(3) by simp
  with len j(1) all bnd show ?thesis by metis
qed

lemma ms_Atom_elem: "s' \<in> set (ms (Atom a) s) \<Longrightarrow> \<exists>c. s = c # s' \<and> amatch a c"
  by (cases s) (auto split: if_splits)

lemma ms_Seq_elem:
  "s' \<in> set (ms (Seq r1 r2) s) \<Longrightarrow> \<exists>x\<in>set (ms r1 s). s' \<in> set (ms r2 x)"
  by auto

lemma ord_ascii_lower:
  "ord (ascii_lower c) = (if 65 \<le> ord c \<and> ord c \<le> 90 then ord c + 32 else ord c)"
  by (auto simp: ascii_lower_def ord_def)

lemma ord_ascii_upper:
  "ord (ascii_upper c) = (if 97 \<le> ord c \<and> ord c \<le> 122 then ord c - 32 else ord c)"
  by (auto simp: ascii_upper_def ord_def)

lemma ord_eq_iff: "ord a = ord b \<longleftrightarrow> a = b"
  by (simp add: ord_def)

lemma amatch_digit09: "amatch digit09 c \<Longrightarrow> py_isdigit c"
  by (auto simp: amatch_def digit09_def py_isdigit_def ord_ascii_lower ord_ascii_upper
      ord_def [of "CHR ''0''"] ord_def [of "CHR ''9''"] split: if_splits)

lemma amatch_dot: "amatch (Lit CHR ''.'') c \<Longrightarrow> c = CHR ''.''"
proof -
  assume "amatch (Lit CHR ''.'') c"
  then consider "c = CHR ''.''" | "ord (ascii_lower c) = ord CHR ''.''"
    | "ord (ascii_upper c) = ord CHR ''.''"
    by (auto simp: amatch_def)
  then have "ord c = ord CHR ''.''"
    by cases (auto simp: ord_ascii_lower ord_ascii_upper ord_def [of "CHR ''.''"] split: if_splits)
  then show ?thesis by (simp only: ord_eq_iff)
qed

lemma amatch_digit_comma: "amatch digit_comma c \<Longrightarrow> py_isdigit c \<or> c = CHR '',''"
proof -
  assume "amatch digit_comma c"
  then consider "py_isdigit c" | "py_isdigit (ascii_lower c)" | "py_isdigit (ascii_upper c)"
    | "c = CHR '',''" | "ord (ascii_lower c) = ord CHR '',''" | "ord (ascii_upper c) = ord CHR '',''"
    by (auto simp: amatch_def digit_comma_def py_isdigit_def
        ord_def [of "CHR ''0''"] ord_def [of "CHR ''9''"])
  then have "py_isdigit c \<or> ord c = ord CHR '',''"
    by cases (auto simp: py_isdigit_def ord_ascii_lower ord_ascii_upper ord_def [of "CHR '',''"]
        split: if_splits)
  then show ?thesis by (simp only: ord_eq_iff)
qed


lemma amount_text_iff:
  "amount_text cap \<longleftrightarrow>
     (\<exists>ds a b. cap = ds @ [CHR ''.'', a, b] \<and> ds \<noteq> []
        \<and> (\<forall>c\<in>set ds. py_isdigit c \<or> c = CHR '','') \<and> py_isdigit a \<and> py_isdigit b)"
proof
  assume "amount_text cap"
  then obtain b a ds where r: "rev cap = b # a # CHR ''.'' # ds" "py_isdigit b" "py_isdigit a"
    "ds \<noteq> []" "list_all (\<lambda>c. py_isdigit c \<or> c = CHR '','') ds"
    by (auto simp: amount_text_def split: list.splits)
  from r(1) have "cap = rev (b # a # CHR ''.'' # ds)" by (metis rev_rev_ident)
  then have "cap = rev ds @ [CHR ''.'', a, b]" by simp
  with r(2-5) show "\<exists>ds a b. cap = ds @ [CHR ''.'', a, b] \<and> ds \<noteq> []
        \<and> (\<forall>c\<in>set ds. py_isdigit c \<or> c = CHR '','') \<and> py_isdigit a \<and> py_isdigit b"
    by (intro exI [of _ "rev ds"] exI [of _ a] exI [of _ b]) (simp add: list_all_iff)
next
  assume "\<exists>ds a b. cap = ds @ [CHR ''.'', a, b] \<and> ds \<noteq> []
        \<and> (\<forall>c\<in>set ds. py_isdigit c \<or> c = CHR '','') \<and> py_isdigit a \<and> py_isdigit b"
  then show "amount_text cap" by (auto simp: amount_text_def list_all_iff)
qed

lemma ms_amount_group:
  assumes "s2 \<in> set (ms amount_group s1)"
  shows "\<exists>cap. s1 = cap @ s2 \<and> amount_text cap"
proof -
  from assms obtain x where x: "x \<in> set (ms (Rep digit_comma 1 None) s1)"
    "s2 \<in> set (ms (Seq (Atom (Lit CHR ''.'')) (Seq (Rep digit09 2 (Some 2)) Eps)) x)"
    unfolding amount_group_def plus1_def cat.simps by (blast dest: ms_Seq_elem)
  from x(2) obtain y where y: "y \<in> set (ms (Atom (Lit CHR ''.'')) x)"
    "s2 \<in> set (ms (Seq (Rep digit09 2 (Some 2)) Eps) y)"
    by (blast dest: ms_Seq_elem)
  from y(2) obtain z where z: "z \<in> set (ms (Rep digit09 2 (Some 2)) y)" "s2 \<in> set (ms Eps z)"
    by (blast dest: ms_Seq_elem)
  from z(2) have zs: "z = s2" by simp
  from ms_Rep_elem [OF x(1)] obtain ds where ds: "s1 = ds @ x" "1 \<le> length ds"
    "\<forall>c\<in>set ds. amatch digit_comma c" by blast
  from ms_Atom_elem [OF y(1)] obtain d where d: "x = d # y" "amatch (Lit CHR ''.'') d" by blast
  from ms_Rep_elem [OF z(1)] obtain fs where fs: "y = fs @ z" "2 \<le> length fs"
    "\<forall>c\<in>set fs. amatch digit09 c" "length fs \<le> 2" by blast
  from fs(2,4) have "length fs = 2" by simp
  then obtain a b where ab: "fs = [a, b]"
    by (metis (no_types) One_nat_def Suc_1 length_0_conv length_Suc_conv)
  from d(2) have dd: "d = CHR ''.''" by (rule amatch_dot)
  from fs(3) ab have dig: "py_isdigit a" "py_isdigit b" by (auto dest: amatch_digit09)
  from ds(3) have dsd: "\<forall>c\<in>set ds. py_isdigit c \<or> c = CHR '',''"
    by (blast dest: amatch_digit_comma)
  from ds(2) have ne: "ds \<noteq> []" by auto
  have e: "s1 = (ds @ [CHR ''.'', a, b]) @ s2" using ds(1) d(1) dd fs(1) ab zs by simp
  have "amount_text (ds @ [CHR ''.'', a, b])"
    unfolding amount_text_iff using ne dsd dig by blast
  with e show ?thesis by blast
qed

lemma match_here_elem:
  assumes "match_here p s = Some cap"
  shows "\<exists>s1 s2. s2 \<in> set (ms (group1 p) s1) \<and> cap = take (length s1 - length s2) s1"
proof -
  let ?l = "concat (map (\<lambda>s1. map (\<lambda>s2. take (length s1 - length s2) s1) (ms (group1 p) s1))
                       (ms (prefix p) s))"
  from assms obtain rest where "?l = cap # rest"
    by (auto simp: match_here_def split: list.splits)
  then have "cap \<in> set ?l" by (metis list.set_intros(1))
  then show ?thesis by auto
qed

lemma re_search_elem:
  "re_search p s = Some cap \<Longrightarrow> \<exists>t. match_here p t = Some cap"
  by (induction s) (auto split: option.splits)

lemma re_search_amount:
  assumes "group1 p = amount_group" "re_search p s = Some cap"
  shows "amount_text cap"
proof -
  from re_search_elem [OF assms(2)] obtain t where "match_here p t = Some cap" by blast
  from match_here_elem [OF this] assms(1) obtain s1 s2
    where m: "s2 \<in> set (ms amount_group s1)" "cap = take (length s1 - length s2) s1" by auto
  from ms_amount_group [OF m(1)] obtain w where w: "s1 = w @ s2" "amount_text w" by blast
  from m(2) w(1) have "cap = w" by simp
  with w(2) show ?thesis by simp
qed


lemma digit_not_space: "py_isdigit c \<Longrightarrow> \<not> py_isspace c"
  by (auto simp: py_isdigit_def py_isspace_def)

lemma dot_facts:
  "\<not> py_isspace CHR ''.''" "\<not> py_isdigit CHR ''.''" "\<not> py_isspace CHR '',''"
  "\<not> py_isdigit CHR ''-''" "\<not> py_isdigit CHR ''+''" "\<not> py_isdigit CHR ''$''"
  by (simp_all add: py_isspace_def py_isdigit_def ord_def)

lemma dropWhile_hd: "xs \<noteq> [] \<Longrightarrow> \<not> P (hd xs) \<Longrightarrow> dropWhile P xs = xs"
  by (cases xs) auto

lemma strip_no_space:
  assumes "s \<noteq> []" "\<not> py_isspace (hd s)" "\<not> py_isspace (last s)"
  shows "strip s = s"
proof -
  from assms(1,2) have a: "dropWhile py_isspace s = s" by (rule dropWhile_hd)
  from assms(1) have "rev s \<noteq> []" "hd (rev s) = last s" by (simp_all add: hd_rev)
  with assms(3) have "dropWhile py_isspace (rev s) = rev s" by (intro dropWhile_hd) simp_all
  with a show ?thesis by (simp add: strip_def)
qed

lemma strip_amount: "amount_text cap \<Longrightarrow> strip cap = cap"
proof -
  assume "amount_text cap"
  then obtain ds a b where c: "cap = ds @ [CHR ''.'', a, b]" "ds \<noteq> []"
    "\<forall>c\<in>set ds. py_isdigit c \<or> c = CHR '',''" "py_isdigit a" "py_isdigit b"
    unfolding amount_text_iff by blast
  from c(2) have "hd cap = hd ds" "hd ds \<in> set ds" using c(1) by simp_all
  with c(3) have h: "\<not> py_isspace (hd cap)"
    by (metis digit_not_space dot_facts(3))
  from c(1) have "last cap = b" by simp
  with c(5) have l: "\<not> py_isspace (last cap)" by (simp add: digit_not_space)
  from c(1) have "cap \<noteq> []" by simp
  then show ?thesis using h l by (rule strip_no_space)
qed

lemma amount_text_nonempty: "amount_text cap \<Longrightarrow> cap \<noteq> []"
  unfolding amount_text_iff by auto

lemma py_float_decimal:
  assumes "\<forall>c\<in>set ip. py_isdigit c" "py_isdigit a" "py_isdigit b"
  shows "py_float (ip @ [CHR ''.'', a, b]) =
           Inr (of_nat (digits_val ip) + of_nat (digits_val [a, b]) / 10 ^ 2)"
proof -
  let ?u = "ip @ [CHR ''.'', a, b]"
  have hd_ok: "py_isdigit (hd ?u) \<or> hd ?u = CHR ''.''"
    using assms(1) by (cases ip) auto
  then have nsp: "\<not> py_isspace (hd ?u)" by (metis digit_not_space dot_facts(1))
  have "last ?u = b" by simp
  with assms(3) have "\<not> py_isspace (last ?u)" by (simp add: digit_not_space)
  with nsp have st: "strip ?u = ?u" by (intro strip_no_space) simp_all
  from hd_ok have sg: "hd ?u \<noteq> CHR ''-''" "hd ?u \<noteq> CHR ''+''"
    using dot_facts(4,5) by auto
  have tw: "takeWhile py_isdigit ?u = ip"
    using assms(1) dot_facts(2) by simp
  have dw: "dropWhile py_isdigit ?u = [CHR ''.'', a, b]"
    using assms(1) dot_facts(2) by simp
  show ?thesis
    unfolding py_float_def st Let_def using sg tw dw assms(2,3) by simp
qed

lemma float_amount:
  assumes "amount_text cap"
  shows "\<exists>v. py_float (remove_char CHR ''$'' (remove_char CHR '','' cap)) = Inr v \<and> 0 \<le> v"
proof -
  from assms obtain ds a b where c: "cap = ds @ [CHR ''.'', a, b]" "ds \<noteq> []"
    "\<forall>c\<in>set ds. py_isdigit c \<or> c = CHR '',''" "py_isdigit a" "py_isdigit b"
    unfolding amount_text_iff by blast
  let ?ip = "filter (\<lambda>x. x \<noteq> CHR '','') ds"
  have ipd: "\<forall>c\<in>set ?ip. py_isdigit c" using c(3) by auto
  have ab: "a \<noteq> CHR '',''" "b \<noteq> CHR '',''" "a \<noteq> CHR ''$''" "b \<noteq> CHR ''$''"
    using c(4,5) by (auto simp: py_isdigit_def ord_def)
  have nd: "\<forall>c\<in>set ?ip. c \<noteq> CHR ''$''" using ipd dot_facts(6) by blast
  have r1: "remove_char CHR '','' cap = ?ip @ [CHR ''.'', a, b]"
    using ab by (simp add: remove_char_def c(1))
  have "filter (\<lambda>x. x \<noteq> CHR ''$'') ?ip = ?ip" using nd by (simp only: filter_True)
  then have r2: "remove_char CHR ''$'' (?ip @ [CHR ''.'', a, b]) = ?ip @ [CHR ''.'', a, b]"
    using ab by (simp add: remove_char_def)
  have "py_float (?ip @ [CHR ''.'', a, b]) =
           Inr (of_nat (digits_val ?ip) + of_nat (digits_val [a, b]) / 10 ^ 2)"
    using ipd c(4,5) by (rule py_float_decimal)
  moreover have "(0::rat) \<le> of_nat (digits_val ?ip) + of_nat (digits_val [a, b]) / 10 ^ 2"
    by simp
  ultimately show ?thesis unfolding r1 r2 by blast
qed

lemma extract_loop_Some:
  "extract_loop idx ps text = (Some v, c) \<Longrightarrow>
     \<exists>p\<in>set ps. \<exists>cap. re_search p text = Some cap \<and> v = strip cap"
  by (induction ps arbitrary: idx) (auto split: option.splits)

lemma amount_field_cases:
  "field_type \<in> {''total_amount'', ''tax_amount'', ''subtotal''} \<Longrightarrow>
     \<exists>ps. PATTERNS field_type = Some ps \<and> (\<forall>p\<in>set ps. group1 p = amount_group)"
  by (auto simp: PATTERNS_def total_amount_patterns_def tax_amount_patterns_def
      subtotal_patterns_def amount_rule_def)

lemma extract_field_amount:
  assumes "field_type \<in> {''total_amount'', ''tax_amount'', ''subtotal''}"
    and "extract_field text field_type = (Some str, conf)"
  shows "amount_text str"
proof -
  from amount_field_cases [OF assms(1)] obtain ps
    where ps: "PATTERNS field_type = Some ps" "\<forall>p\<in>set ps. group1 p = amount_group" by blast
  from assms(2) ps(1) have "extract_loop 0 ps text = (Some str, conf)"
    by (simp add: extract_field_def)
  from extract_loop_Some [OF this] obtain p cap
    where p: "p \<in> set ps" "re_search p text = Some cap" "str = strip cap" by blast
  from ps(2) p(1) have "group1 p = amount_group" by blast
  from re_search_amount [OF this p(2)] have "amount_text cap" .
  with p(3) show ?thesis by (simp add: strip_amount)
qed


lemma amount_step_result:
  assumes "\<forall>str conf. extract_field text field_type = (Some str, conf) \<longrightarrow> amount_text str"
  shows "\<exists>m'. amount_step text field_type key m = Inr m'
           \<and> (\<forall>k. k \<noteq> key \<longrightarrow> m' k = m k)
           \<and> (fst (extract_field text field_type) = None \<longrightarrow> m' key = m key)
           \<and> (fst (extract_field text field_type) \<noteq> None \<longrightarrow>
                (\<exists>v. m' key = Some (v, snd (extract_field text field_type)) \<and> 0 \<le> v))"
proof (cases "extract_field text field_type")
  case (Pair x conf)
  show ?thesis
  proof (cases x)
    case None
    with Pair show ?thesis by (simp add: amount_step_def)
  next
    case (Some str)
    with Pair have "extract_field text field_type = (Some str, conf)" by simp
    with assms have "amount_text str" by blast
    then have ne: "str \<noteq> []"
      and "\<exists>v. py_float (remove_char CHR ''$'' (remove_char CHR '','' str)) = Inr v \<and> 0 \<le> v"
      by (simp_all add: amount_text_nonempty float_amount)
    then obtain v where v: "py_float (remove_char CHR ''$'' (remove_char CHR '','' str)) = Inr v"
      "0 \<le> v" by blast
    have "amount_step text field_type key m = Inr (m(key \<mapsto> (v, conf)))"
      using Pair Some ne v(1) by (simp add: amount_step_def)
    with Pair Some v(2) show ?thesis by simp
  qed
qed

lemma amount_steps_result:
  assumes t: "\<forall>str conf. extract_field text ft = (Some str, conf) \<longrightarrow> amount_text str"
    and x: "\<forall>str conf. extract_field text fx = (Some str, conf) \<longrightarrow> amount_text str"
    and s: "\<forall>str conf. extract_field text fs = (Some str, conf) \<longrightarrow> amount_text str"
    and ne: "kt \<noteq> kx" "kt \<noteq> ks" "kx \<noteq> ks"
  shows "\<exists>m. (case amount_step text ft kt Map.empty of
                Inl e \<Rightarrow> Inl e
              | Inr a1 \<Rightarrow> (case amount_step text fx kx a1 of
                             Inl e \<Rightarrow> Inl e
                           | Inr a2 \<Rightarrow> amount_step text fs ks a2)) = Inr m
     \<and> (m kt = None \<longleftrightarrow> fst (extract_field text ft) = None)
     \<and> (m kx = None \<longleftrightarrow> fst (extract_field text fx) = None)
     \<and> (m ks = None \<longleftrightarrow> fst (extract_field text fs) = None)
     \<and> (\<forall>k. k \<noteq> kt \<and> k \<noteq> kx \<and> k \<noteq> ks \<longrightarrow> m k = None)
     \<and> (\<forall>k v c. m k = Some (v, c) \<longrightarrow> 0 \<le> v)"
proof -
  let ?T = "fst (extract_field text ft)"
  let ?X = "fst (extract_field text fx)"
  let ?S = "fst (extract_field text fs)"
  from amount_step_result [OF t, of kt "Map.empty"] obtain m1 where
    m1c: "amount_step text ft kt Map.empty = Inr m1
      \<and> (\<forall>k. k \<noteq> kt \<longrightarrow> m1 k = Map.empty k)
      \<and> (?T = None \<longrightarrow> m1 kt = Map.empty kt)
      \<and> (?T \<noteq> None \<longrightarrow> (\<exists>v. m1 kt = Some (v, snd (extract_field text ft)) \<and> 0 \<le> v))" ..
  note m1 = conjunct1 [OF m1c] conjunct1 [OF conjunct2 [OF m1c]]
    conjunct1 [OF conjunct2 [OF conjunct2 [OF m1c]]]
    conjunct2 [OF conjunct2 [OF conjunct2 [OF m1c]]]
  from amount_step_result [OF x, of kx m1] obtain m2 where
    m2c: "amount_step text fx kx m1 = Inr m2
      \<and> (\<forall>k. k \<noteq> kx \<longrightarrow> m2 k = m1 k)
      \<and> (?X = None \<longrightarrow> m2 kx = m1 kx)
      \<and> (?X \<noteq> None \<longrightarrow> (\<exists>v. m2 kx = Some (v, snd (extract_field text fx)) \<and> 0 \<le> v))" ..
  note m2 = conjunct1 [OF m2c] conjunct1 [OF conjunct2 [OF m2c]]
    conjunct1 [OF conjunct2 [OF conjunct2 [OF m2c]]]
    conjunct2 [OF conjunct2 [OF conjunct2 [OF m2c]]]
  from amount_step_result [OF s, of ks m2] obtain m3 where
    m3c: "amount_step text fs ks m2 = Inr m3
      \<and> (\<forall>k. k \<noteq> ks \<longrightarrow> m3 k = m2 k)
      \<and> (?S = None \<longrightarrow> m3 ks = m2 ks)
      \<and> (?S \<noteq> None \<longrightarrow> (\<exists>v. m3 ks = Some (v, snd (extract_field text fs)) \<and> 0 \<le> v))" ..
  note m3 = conjunct1 [OF m3c] conjunct1 [OF conjunct2 [OF m3c]]
    conjunct1 [OF conjunct2 [OF conjunct2 [OF m3c]]]
    conjunct2 [OF conjunct2 [OF conjunct2 [OF m3c]]]
  have e: "(case amount_step text ft kt Map.empty of
                Inl e \<Rightarrow> Inl e
              | Inr a1 \<Rightarrow> (case amount_step text fx kx a1 of
                             Inl e \<Rightarrow> Inl e
                           | Inr a2 \<Rightarrow> amount_step text fs ks a2)) = Inr m3"
    by (simp add: m1(1) m2(1) m3(1))
  note ne' = ne ne [symmetric]
  have tt: "m3 kt = m1 kt" using m3(2) m2(2) ne' by simp
  have xx: "m3 kx = m2 kx" using m3(2) ne' by simp
  have x1: "m1 kx = None" using m1(2) ne' by simp
  have s1: "m1 ks = None" using m1(2) ne' by simp
  have s2: "m2 ks = None" using m2(2) s1 ne' by simp
  have t0: "?T = None \<longrightarrow> m1 kt = None" using m1(3) by simp
  have a: "m3 kt = None \<longleftrightarrow> ?T = None"
    unfolding tt using t0 m1(4) by (cases "?T = None") auto
  have b: "m3 kx = None \<longleftrightarrow> ?X = None"
    unfolding xx using m2(3,4) x1 by (cases "?X = None") auto
  have c: "m3 ks = None \<longleftrightarrow> ?S = None"
    using m3(3,4) s2 by (cases "?S = None") auto
  have d: "\<forall>k. k \<noteq> kt \<and> k \<noteq> kx \<and> k \<noteq> ks \<longrightarrow> m3 k = None"
  proof (intro allI impI)
    fix k assume k: "k \<noteq> kt \<and> k \<noteq> kx \<and> k \<noteq> ks"
    then show "m3 k = None" using m3(2) m2(2) m1(2) by simp
  qed
  have f: "\<forall>k v c. m3 k = Some (v, c) \<longrightarrow> 0 \<le> v"
  proof (intro allI impI)
    fix k v c assume h: "m3 k = Some (v, c)"
    consider "k = kt" | "k = kx" | "k = ks" | "k \<noteq> kt \<and> k \<noteq> kx \<and> k \<noteq> ks" by blast
    then show "0 \<le> v"
    proof cases
      case 1
      with h tt have "m1 kt = Some (v, c)" by simp
      with t0 m1(4) show ?thesis by (cases "?T = None") auto
    next
      case 2
      with h xx have "m2 kx = Some (v, c)" by simp
      with m2(3,4) x1 show ?thesis by (cases "?X = None") auto
    next
      case 3
      with h have "m3 ks = Some (v, c)" by simp
      with m3(3,4) s2 show ?thesis by (cases "?S = None") auto
    next
      case 4
      with d h show ?thesis by simp
    qed
  qed
  show ?thesis by (rule exI [of _ m3]) (intro conjI e a b c d f)
qed

lemma amount_keys:
  "''total_amount'' \<in> {''total_amount'', ''tax_amount'', ''subtotal''}"
  "''tax_amount'' \<in> {''total_amount'', ''tax_amount'', ''subtotal''}"
  "''subtotal'' \<in> {''total_amount'', ''tax_amount'', ''subtotal''}"
  "''total'' \<noteq> ''tax''" "''total'' \<noteq> ''subtotal''" "''tax'' \<noteq> ''subtotal''"
  by simp_all

lemma extract_field_amount_all:
  "field_type \<in> {''total_amount'', ''tax_amount'', ''subtotal''} \<Longrightarrow>
     \<forall>str conf. extract_field text field_type = (Some str, conf) \<longrightarrow> amount_text str"
proof (intro allI impI)
  fix str conf
  assume "field_type \<in> {''total_amount'', ''tax_amount'', ''subtotal''}"
    and "extract_field text field_type = (Some str, conf)"
  then show "amount_text str" by (rule extract_field_amount)
qed

lemma extract_amounts_result:
  "\<exists>m. extract_amounts text = Inr m
     \<and> (m ''total'' = None \<longleftrightarrow> fst (extract_field text ''total_amount'') = None)
     \<and> (m ''tax'' = None \<longleftrightarrow> fst (extract_field text ''tax_amount'') = None)
     \<and> (m ''subtotal'' = None \<longleftrightarrow> fst (extract_field text ''subtotal'') = None)
     \<and> (\<forall>k. k \<noteq> ''total'' \<and> k \<noteq> ''tax'' \<and> k \<noteq> ''subtotal'' \<longrightarrow> m k = None)
     \<and> (\<forall>k v c. m k = Some (v, c) \<longrightarrow> 0 \<le> v)"
  unfolding extract_amounts_def
  by (rule amount_steps_result
        [OF extract_field_amount_all [OF amount_keys(1)]
            extract_field_amount_all [OF amount_keys(2)]
            extract_field_amount_all [OF amount_keys(3)] amount_keys(4-6)])

lemma amount_rules_group:
  "p \<in> set (total_amount_patterns @ tax_amount_patterns @ subtotal_patterns) \<Longrightarrow>
     group1 p = amount_group"
  unfolding total_amount_patterns_def tax_amount_patterns_def subtotal_patterns_def
    amount_rule_def
  by auto

text \<open>
  C10. Whatever the text, a match of a total, tax or subtotal rule captures digits and
  commas followed by a point and two digits; with the commas and the dollar signs removed
  it parses as a decimal number that is not negative. So \<open>extract_amounts\<close> never raises:
  it returns a mapping, and every amount in it is at least 0.
\<close>

theorem amounts_always_parse:
  "(\<forall>p\<in>set (total_amount_patterns @ tax_amount_patterns @ subtotal_patterns).
      \<forall>captured. re_search p text = Some captured \<longrightarrow>
        amount_text captured
        \<and> (\<exists>v. py_float (remove_char CHR ''$'' (remove_char CHR '','' (strip captured))) = Inr v
               \<and> 0 \<le> v))
   \<and> (\<exists>amounts. extract_amounts text = Inr amounts
          \<and> (\<forall>k v c. amounts k = Some (v, c) \<longrightarrow> 0 \<le> v))"
proof (intro conjI ballI allI impI)
  fix p captured
  assume p: "p \<in> set (total_amount_patterns @ tax_amount_patterns @ subtotal_patterns)"
    and r: "re_search p text = Some captured"
  from re_search_amount [OF amount_rules_group [OF p] r] show a: "amount_text captured" .
  from float_amount [OF a]
  show "\<exists>v. py_float (remove_char CHR ''$'' (remove_char CHR '','' (strip captured))) = Inr v
               \<and> 0 \<le> v"
    by (simp only: strip_amount [OF a])
next
  from extract_amounts_result [of "text"] obtain m where
    mc: "extract_amounts text = Inr m
     \<and> (m ''total'' = None \<longleftrightarrow> fst (extract_field text ''total_amount'') = None)
     \<and> (m ''tax'' = None \<longleftrightarrow> fst (extract_field text ''tax_amount'') = None)
     \<and> (m ''subtotal'' = None \<longleftrightarrow> fst (extract_field text ''subtotal'') = None)
     \<and> (\<forall>k. k \<noteq> ''total'' \<and> k \<noteq> ''tax'' \<and> k \<noteq> ''subtotal'' \<longrightarrow> m k = None)
     \<and> (\<forall>k v c. m k = Some (v, c) \<longrightarrow> 0 \<le> v)" ..
  note m1 = conjunct1 [OF mc]
  note m6 = conjunct2 [OF conjunct2 [OF conjunct2 [OF conjunct2 [OF conjunct2 [OF mc]]]]]
  show "\<exists>amounts. extract_amounts text = Inr amounts
          \<and> (\<forall>k v c. amounts k = Some (v, c) \<longrightarrow> 0 \<le> v)"
    by (rule exI [of _ m]) (intro conjI m1 m6)
qed

theorem amounts_always_parse_witness:
  "re_search (total_amount_patterns ! 0) ''Total: $1,234.50'' = Some ''1,234.50''
   \<and> amount_text ''1,234.50''
   \<and> (\<exists>v. py_float (remove_char CHR ''$'' (remove_char CHR '','' (strip ''1,234.50''))) = Inr v
          \<and> 0 \<le> v)
   \<and> (\<exists>amounts. extract_amounts ''Total: $1,234.50'' = Inr amounts
          \<and> (\<forall>k v c. amounts k = Some (v, c) \<longrightarrow> 0 \<le> v))"
proof -
  have r: "re_search (total_amount_patterns ! 0) ''Total: $1,234.50'' = Some ''1,234.50''"
    by code_simp
  have p: "total_amount_patterns ! 0
             \<in> set (total_amount_patterns @ tax_amount_patterns @ subtotal_patterns)"
    by (simp add: total_amount_patterns_def)
  note t = amounts_always_parse [of "''Total: $1,234.50''"]
  note a = mp [OF spec [OF bspec [OF conjunct1 [OF t] p]] r]
  show ?thesis by (intro conjI r conjunct1 [OF a] conjunct2 [OF a] conjunct2 [OF t])
qed

subsection \<open>The keys of \<^verbatim>\<open>extract_amounts\<close>\<close>

lemma extract_loop_Some_iff:
  "fst (extract_loop idx ps text) \<noteq> None \<longleftrightarrow> (\<exists>p\<in>set ps. re_search p text \<noteq> None)"
  by (induction ps arbitrary: idx) (auto split: option.splits)

lemma extract_field_Some_iff:
  assumes "PATTERNS ft = Some ps"
  shows "fst (extract_field text ft) \<noteq> None \<longleftrightarrow> (\<exists>p\<in>set ps. re_search p text \<noteq> None)"
proof -
  have "extract_field text ft = extract_loop 0 ps text"
    by (simp add: extract_field_def assms)
  then show ?thesis by (simp only: extract_loop_Some_iff)
qed

lemma amount_PATTERNS:
  "PATTERNS ''total_amount'' = Some total_amount_patterns"
  "PATTERNS ''tax_amount'' = Some tax_amount_patterns"
  "PATTERNS ''subtotal'' = Some subtotal_patterns"
  by (simp_all add: PATTERNS_def)

lemma present_iff: "(a = None \<longleftrightarrow> b = None) \<Longrightarrow> (b \<noteq> None \<longleftrightarrow> C) \<Longrightarrow> (a \<noteq> None \<longleftrightarrow> C)"
  by blast

lemma absent_if: "(a \<noteq> None \<longleftrightarrow> C) \<Longrightarrow> \<not> C \<Longrightarrow> a = None"
  by blast

lemma present_if: "(a \<noteq> None \<longleftrightarrow> C) \<Longrightarrow> C \<Longrightarrow> a \<noteq> None"
  by blast

text \<open>
  C7. The mapping returned by \<open>extract_amounts\<close> has the key \<open>total\<close>, \<open>tax\<close> or
  \<open>subtotal\<close> exactly when a rule of that field type matches the text, and it has no
  other key: an amount type without a match is absent.
\<close>

theorem amount_key_iff_match:
  "\<exists>amounts. extract_amounts text = Inr amounts
     \<and> (amounts ''total'' \<noteq> None \<longleftrightarrow> (\<exists>p\<in>set total_amount_patterns. re_search p text \<noteq> None))
     \<and> (amounts ''tax'' \<noteq> None \<longleftrightarrow> (\<exists>p\<in>set tax_amount_patterns. re_search p text \<noteq> None))
     \<and> (amounts ''subtotal'' \<noteq> None \<longleftrightarrow> (\<exists>p\<in>set subtotal_patterns. re_search p text \<noteq> None))
     \<and> dom amounts \<subseteq> {''total'', ''tax'', ''subtotal''}"
proof -
  from extract_amounts_result [of "text"] obtain m where
    mc: "extract_amounts text = Inr m
     \<and> (m ''total'' = None \<longleftrightarrow> fst (extract_field text ''total_amount'') = None)
     \<and> (m ''tax'' = None \<longleftrightarrow> fst (extract_field text ''tax_amount'') = None)
     \<and> (m ''subtotal'' = None \<longleftrightarrow> fst (extract_field text ''subtotal'') = None)
     \<and> (\<forall>k. k \<noteq> ''total'' \<and> k \<noteq> ''tax'' \<and> k \<noteq> ''subtotal'' \<longrightarrow> m k = None)
     \<and> (\<forall>k v c. m k = Some (v, c) \<longrightarrow> 0 \<le> v)" ..
  note m1 = conjunct1 [OF mc]
  note m2 = conjunct1 [OF conjunct2 [OF mc]]
  note m3 = conjunct1 [OF conjunct2 [OF conjunct2 [OF mc]]]
  note m4 = conjunct1 [OF conjunct2 [OF conjunct2 [OF conjunct2 [OF mc]]]]
  note m5 = conjunct1 [OF conjunct2 [OF conjunct2 [OF conjunct2 [OF conjunct2 [OF mc]]]]]
  note a = present_iff [OF m2 extract_field_Some_iff [OF amount_PATTERNS(1)]]
  note b = present_iff [OF m3 extract_field_Some_iff [OF amount_PATTERNS(2)]]
  note c = present_iff [OF m4 extract_field_Some_iff [OF amount_PATTERNS(3)]]
  have d: "dom m \<subseteq> {''total'', ''tax'', ''subtotal''}"
  proof
    fix k assume "k \<in> dom m"
    then have "m k \<noteq> None" by (simp add: dom_def)
    with m5 have "\<not> (k \<noteq> ''total'' \<and> k \<noteq> ''tax'' \<and> k \<noteq> ''subtotal'')" by (rule_tac notI) simp
    then show "k \<in> {''total'', ''tax'', ''subtotal''}" by simp
  qed
  show ?thesis by (rule exI [of _ m]) (intro conjI m1 a b c d)
qed

theorem amount_key_iff_match_witness:
  "\<exists>amounts. extract_amounts ''Tax: $8.00'' = Inr amounts
     \<and> amounts ''tax'' \<noteq> None \<and> amounts ''total'' = None \<and> amounts ''subtotal'' = None"
proof -
  have x: "list_ex (\<lambda>p. re_search p ''Tax: $8.00'' \<noteq> None) tax_amount_patterns" by code_simp
  have t: "\<not> list_ex (\<lambda>p. re_search p ''Tax: $8.00'' \<noteq> None) total_amount_patterns" by code_simp
  have s: "\<not> list_ex (\<lambda>p. re_search p ''Tax: $8.00'' \<noteq> None) subtotal_patterns" by code_simp
  note x' = x [unfolded list_ex_iff]
  note t' = t [unfolded list_ex_iff]
  note s' = s [unfolded list_ex_iff]
  from amount_key_iff_match [of "''Tax: $8.00''"] obtain m where
    mc: "extract_amounts ''Tax: $8.00'' = Inr m
     \<and> (m ''total'' \<noteq> None \<longleftrightarrow> (\<exists>p\<in>set total_amount_patterns. re_search p ''Tax: $8.00'' \<noteq> None))
     \<and> (m ''tax'' \<noteq> None \<longleftrightarrow> (\<exists>p\<in>set tax_amount_patterns. re_search p ''Tax: $8.00'' \<noteq> None))
     \<and> (m ''subtotal'' \<noteq> None \<longleftrightarrow> (\<exists>p\<in>set subtotal_patterns. re_search p ''Tax: $8.00'' \<noteq> None))
     \<and> dom m \<subseteq> {''total'', ''tax'', ''subtotal''}" ..
  note m1 = conjunct1 [OF mc]
  note m2 = conjunct1 [OF conjunct2 [OF mc]]
  note m3 = conjunct1 [OF conjunct2 [OF conjunct2 [OF mc]]]
  note m4 = conjunct1 [OF conjunct2 [OF conjunct2 [OF conjunct2 [OF mc]]]]
  note a = present_if [OF m3 x']
  note b = absent_if [OF m2 t']
  note c = absent_if [OF m4 s']
  show ?thesis by (rule exI [of _ m]) (intro conjI m1 a b c)
qed

subsection \<open>The assembled record\<close>

lemma extract_loop_conf_range:
  "idx + length ps \<le> 10 \<Longrightarrow>
     0 \<le> snd (extract_loop idx ps text) \<and> snd (extract_loop idx ps text) \<le> 1"
proof (induction ps arbitrary: idx)
  case Nil
  then show ?case by simp
next
  case (Cons p ps)
  show ?case
  proof (cases "re_search p text")
    case None
    with Cons.IH [of "Suc idx"] Cons.prems show ?thesis by simp
  next
    case (Some cap)
    from Cons.prems have "idx \<le> 10" by simp
    then have "(of_nat idx :: rat) \<le> of_nat 10" by (simp only: of_nat_le_iff)
    then have "(of_nat idx :: rat) \<le> 10" by simp
    with Some show ?thesis by simp
  qed
qed

lemma PATTERNS_length_all:
  "length (case PATTERNS ft of None \<Rightarrow> [] | Some ps \<Rightarrow> ps) \<le> 3"
proof (cases "PATTERNS ft")
  case None
  then show ?thesis by simp
next
  case (Some ps)
  then have "ps = invoice_number_patterns \<or> ps = invoice_date_patterns \<or> ps = due_date_patterns
     \<or> ps = total_amount_patterns \<or> ps = tax_amount_patterns \<or> ps = subtotal_patterns"
    unfolding PATTERNS_def by (simp split: if_splits)
  then have "length ps \<le> 3"
    by (auto simp: invoice_number_patterns_def invoice_date_patterns_def
      due_date_patterns_def total_amount_patterns_def tax_amount_patterns_def
      subtotal_patterns_def)
  with Some show ?thesis by simp
qed

lemma extract_field_conf_range:
  "0 \<le> snd (extract_field text ft) \<and> snd (extract_field text ft) \<le> 1"
  unfolding extract_field_def
  using PATTERNS_length_all [of ft] by (intro extract_loop_conf_range) simp

lemma sum_list_le_length:
  "\<forall>c\<in>set xs. c \<le> (1::rat) \<Longrightarrow> sum_list xs \<le> of_nat (length xs)"
  by (induction xs) auto

lemma sum_list_ge0: "\<forall>c\<in>set xs. (0::rat) \<le> c \<Longrightarrow> 0 \<le> sum_list xs"
  by (induction xs) auto

lemma overall_confidence_range:
  assumes "\<forall>c\<in>set cs. 0 \<le> c \<and> c \<le> 1"
  shows "0 \<le> overall_confidence cs \<and> overall_confidence cs \<le> 1"
proof -
  let ?v = "filter (\<lambda>c. c > 0) cs"
  have a: "\<forall>c\<in>set ?v. c \<le> 1" and b: "\<forall>c\<in>set ?v. 0 \<le> c" using assms by auto
  show ?thesis
  proof (cases "?v = []")
    case True
    then show ?thesis by (simp add: overall_confidence_def)
  next
    case False
    then have pos: "(0::rat) < of_nat (length ?v)" by simp
    have "sum_list ?v / of_nat (length ?v) \<le> 1"
      using sum_list_le_length [OF a] pos by (simp add: divide_le_eq)
    moreover have "0 \<le> sum_list ?v / of_nat (length ?v)"
      using sum_list_ge0 [OF b] pos by simp
    ultimately show ?thesis using False by (simp add: overall_confidence_def Let_def)
  qed
qed

lemma overall_confidence_mean:
  assumes "\<forall>c\<in>set cs. 0 \<le> c"
  shows "overall_confidence cs = mean_nonzero cs"
proof -
  have "filter (\<lambda>c. c > 0) cs = filter (\<lambda>c. c \<noteq> 0) cs"
    using assms by (intro filter_cong) auto
  then show ?thesis by (simp add: overall_confidence_def mean_nonzero_def Let_def)
qed

lemma amount_or_nonneg:
  "\<forall>k v c. m k = Some (v, c) \<longrightarrow> 0 \<le> v \<Longrightarrow> 0 \<le> old \<Longrightarrow> 0 \<le> amount_or m key old"
  by (auto simp: amount_or_def split: option.splits)

text \<open>The record of a document that was decoded.\<close>

lemma try_extract_decoded:
  assumes "extract_text w p = (Inr text, lg0)" "extract_amounts text = Inr amounts"
  shows "try_extract w p inv0 =
     Inr (inv0\<lparr>raw_text := text,
               invoice_number := or_empty (fst (extract_field text ''invoice_number'')),
               invoice_date := or_empty (fst (extract_field text ''invoice_date'')),
               due_date := or_empty (fst (extract_field text ''due_date'')),
               total_amount := amount_or amounts ''total'' (total_amount inv0),
               tax_amount := amount_or amounts ''tax'' (tax_amount inv0),
               subtotal := amount_or amounts ''subtotal'' (subtotal inv0),
               vendor_name := fst (extract_vendor_name text),
               confidence_score := overall_confidence
                 [ if or_empty (fst (extract_field text ''invoice_number'')) \<noteq> []
                   then snd (extract_field text ''invoice_number'') else 0,
                   if or_empty (fst (extract_field text ''invoice_date'')) \<noteq> []
                   then snd (extract_field text ''invoice_date'') else 0,
                   if amount_or amounts ''total'' (total_amount inv0) > 0 then 8 / 10 else 0 ]\<rparr>,
          lg0 @ [InfoExtracted (file_name inv0)])"
  using assms by (simp add: try_extract_def Let_def split: prod.splits)

lemma extract_invoice_fields_decoded:
  assumes "fst (extract_text w p) = Inr text"
  shows "\<exists>amounts. extract_amounts text = Inr amounts
     \<and> (\<forall>k v c. amounts k = Some (v, c) \<longrightarrow> 0 \<le> v)
     \<and> extract_invoice_fields w p =
     Inr ((new_invoice (path_name p))\<lparr>raw_text := text,
               invoice_number := or_empty (fst (extract_field text ''invoice_number'')),
               invoice_date := or_empty (fst (extract_field text ''invoice_date'')),
               due_date := or_empty (fst (extract_field text ''due_date'')),
               total_amount := amount_or amounts ''total'' 0,
               tax_amount := amount_or amounts ''tax'' 0,
               subtotal := amount_or amounts ''subtotal'' 0,
               vendor_name := fst (extract_vendor_name text),
               confidence_score := overall_confidence
                 [ if or_empty (fst (extract_field text ''invoice_number'')) \<noteq> []
                   then snd (extract_field text ''invoice_number'') else 0,
                   if or_empty (fst (extract_field text ''invoice_date'')) \<noteq> []
                   then snd (extract_field text ''invoice_date'') else 0,
                   if amount_or amounts ''total'' 0 > 0 then 8 / 10 else 0 ]\<rparr>,
          snd (extract_text w p) @ [InfoExtracted (path_name p)])"
proof -
  from extract_amounts_result [of "text"] obtain amounts where
    a: "extract_amounts text = Inr amounts" "\<forall>k v c. amounts k = Some (v, c) \<longrightarrow> 0 \<le> v"
    by (elim exE conjE)
  from assms have t: "extract_text w p = (Inr text, snd (extract_text w p))"
    by (cases "extract_text w p") simp
  have n: "total_amount (new_invoice (path_name p)) = 0" "tax_amount (new_invoice (path_name p)) = 0"
    "subtotal (new_invoice (path_name p)) = 0" "file_name (new_invoice (path_name p)) = path_name p"
    by (simp_all add: new_invoice_def)
  show ?thesis
    apply (rule exI [of _ amounts])
    apply (intro conjI a)
    unfolding extract_invoice_fields_def try_extract_decoded [OF t a(1)] n
    apply simp
    done
qed

text \<open>
  C8. In every record that \<open>extract_invoice_fields\<close> returns, the confidence score lies
  between 0 and 1, and the subtotal, the tax amount and the total amount are at least 0.
\<close>

theorem record_invariant:
  assumes "extract_invoice_fields w p = Inr (iv, lg)"
  shows "0 \<le> confidence_score iv \<and> confidence_score iv \<le> 1
     \<and> 0 \<le> subtotal iv \<and> 0 \<le> tax_amount iv \<and> 0 \<le> total_amount iv"
proof (cases "fst (extract_text w p)")
  case (Inl e)
  from extract_invoice_fields_decode_fails [OF this] assms
  have "iv = new_invoice (path_name p)" by simp
  then show ?thesis by (simp add: new_invoice_def)
next
  case (Inr raw)
  from extract_invoice_fields_decoded [OF this] assms obtain amounts where
    a: "\<forall>k v c. amounts k = Some (v, c) \<longrightarrow> 0 \<le> v"
    and c: "confidence_score iv = overall_confidence
                 [ if or_empty (fst (extract_field raw ''invoice_number'')) \<noteq> []
                   then snd (extract_field raw ''invoice_number'') else 0,
                   if or_empty (fst (extract_field raw ''invoice_date'')) \<noteq> []
                   then snd (extract_field raw ''invoice_date'') else 0,
                   if amount_or amounts ''total'' 0 > 0 then 8 / 10 else 0 ]"
    and m: "total_amount iv = amount_or amounts ''total'' 0"
      "tax_amount iv = amount_or amounts ''tax'' 0"
      "subtotal iv = amount_or amounts ''subtotal'' 0"
    by auto
  have "0 \<le> confidence_score iv \<and> confidence_score iv \<le> 1"
    unfolding c using extract_field_conf_range [of raw]
    by (intro overall_confidence_range) simp
  moreover have "0 \<le> subtotal iv" "0 \<le> tax_amount iv" "0 \<le> total_amount iv"
    unfolding m using a by (simp_all add: amount_or_nonneg)
  ultimately show ?thesis by simp
qed

theorem record_invariant_witness:
  "extract_invoice_fields example_world ''invoice.pdf''
     = Inr (example_record, [InfoExtracted ''invoice.pdf''])
   \<and> 0 \<le> confidence_score example_record \<and> confidence_score example_record \<le> 1
   \<and> 0 \<le> subtotal example_record \<and> 0 \<le> tax_amount example_record
   \<and> 0 \<le> total_amount example_record"
  by (rule conjI [OF example_eval_record record_invariant [OF example_eval_record]])

text \<open>
  C1. In every record that \<open>extract_invoice_fields\<close> returns, the confidence score is the
  mean of the contributions that are not zero among: the confidence of the invoice-number
  rule when the invoice number is not empty, the confidence of the invoice-date rule when
  the invoice date is not empty, and 0.8 when the total amount is above zero; it is 0 when
  all three are zero.
\<close>

theorem confidence_is_mean_of_nonzero:
  assumes "extract_invoice_fields w p = Inr (iv, lg)"
  shows "confidence_score iv =
           mean_nonzero
             [ if invoice_number iv \<noteq> []
               then snd (extract_field (raw_text iv) ''invoice_number'') else 0,
               if invoice_date iv \<noteq> []
               then snd (extract_field (raw_text iv) ''invoice_date'') else 0,
               if total_amount iv > 0 then 8 / 10 else 0 ]"
proof (cases "fst (extract_text w p)")
  case (Inl e)
  from extract_invoice_fields_decode_fails [OF this] assms
  have "iv = new_invoice (path_name p)" by simp
  then show ?thesis by (simp add: new_invoice_def mean_nonzero_def)
next
  case (Inr raw)
  from extract_invoice_fields_decoded [OF Inr] assms obtain amounts where
    c: "confidence_score iv = overall_confidence
                 [ if or_empty (fst (extract_field raw ''invoice_number'')) \<noteq> []
                   then snd (extract_field raw ''invoice_number'') else 0,
                   if or_empty (fst (extract_field raw ''invoice_date'')) \<noteq> []
                   then snd (extract_field raw ''invoice_date'') else 0,
                   if amount_or amounts ''total'' 0 > 0 then 8 / 10 else 0 ]"
    and m: "total_amount iv = amount_or amounts ''total'' 0"
      "invoice_number iv = or_empty (fst (extract_field raw ''invoice_number''))"
      "invoice_date iv = or_empty (fst (extract_field raw ''invoice_date''))"
      "raw_text iv = raw"
    by auto
  show ?thesis
    unfolding c m using extract_field_conf_range [of raw]
    by (intro overall_confidence_mean) simp
qed

theorem confidence_is_mean_of_nonzero_witness:
  "extract_invoice_fields example_world ''invoice.pdf''
     = Inr (example_record, [InfoExtracted ''invoice.pdf''])
   \<and> confidence_score example_record =
           mean_nonzero
             [ if invoice_number example_record \<noteq> []
               then snd (extract_field (raw_text example_record) ''invoice_number'') else 0,
               if invoice_date example_record \<noteq> []
               then snd (extract_field (raw_text example_record) ''invoice_date'') else 0,
               if total_amount example_record > 0 then 8 / 10 else 0 ]"
  by (rule conjI [OF example_eval_record confidence_is_mean_of_nonzero [OF example_eval_record]])

end
